theory Spec2Isabelle
  imports Main "HOL-Library.AList"
begin

section \<open>Strings and POSIX paths\<close>

text \<open>
  Python strings are modelled as \<open>string\<close> (lists of 8-bit characters).  File names
  and file contents are taken to be ASCII, so that \<open>str.lower\<close>, \<open>\s\<close> and \<open>\w\<close>
  only have to be modelled on ASCII.  \<open>os.sep\<close> is \<open>/\<close>: the functions below are those
  of \<open>posixpath\<close>.
\<close>

definition sep :: char where
  "sep = CHR ''/''"

text \<open>\<open>s.startswith(p)\<close>.\<close>

fun startswith :: "string \<Rightarrow> string \<Rightarrow> bool" where
  "startswith s [] = True"
| "startswith [] (p # ps) = False"
| "startswith (c # cs) (p # ps) = (c = p \<and> startswith cs ps)"

text \<open>\<open>s.endswith(p)\<close>.\<close>

definition endswith :: "string \<Rightarrow> string \<Rightarrow> bool" where
  "endswith s p = startswith (rev s) (rev p)"

text \<open>\<open>p in s\<close> on strings: \<open>p\<close> occurs in \<open>s\<close> as a contiguous substring.\<close>

fun py_in :: "string \<Rightarrow> string \<Rightarrow> bool" where
  "py_in p [] = (p = [])"
| "py_in p (c # cs) = (startswith (c # cs) p \<or> py_in p cs)"

text \<open>\<open>s.split(c)\<close> for a one-character separator: never returns the empty list.\<close>

fun split_on :: "char \<Rightarrow> string \<Rightarrow> string list" where
  "split_on c [] = [[]]"
| "split_on c (x # xs) =
     (if x = c then [] # split_on c xs
      else (case split_on c xs of
              [] \<Rightarrow> [[x]]
            | w # ws \<Rightarrow> (x # w) # ws))"

text \<open>\<open>c.join(ws)\<close>.\<close>

fun join_with :: "char \<Rightarrow> string list \<Rightarrow> string" where
  "join_with c [] = []"
| "join_with c [w] = w"
| "join_with c (w # v # ws) = w @ c # join_with c (v # ws)"

text \<open>\<open>s.replace('.', os.sep)\<close>.\<close>

definition replace_dots :: "string \<Rightarrow> string" where
  "replace_dots s = map (\<lambda>c. if c = CHR ''.'' then sep else c) s"

text \<open>\<open>str.lower\<close> on ASCII.\<close>

definition lower_char :: "char \<Rightarrow> char" where
  "lower_char c =
     (case map_of (zip ''ABCDEFGHIJKLMNOPQRSTUVWXYZ'' ''abcdefghijklmnopqrstuvwxyz'') c of
        Some d \<Rightarrow> d
      | None \<Rightarrow> c)"

definition lower :: "string \<Rightarrow> string" where
  "lower s = map lower_char s"

text \<open>
  \<open>os.path.join(a, b)\<close>:
  \<^verbatim>\<open>
    if b.startswith(sep): path = b
    elif not path or path.endswith(sep): path += b
    else: path += sep + b
  \<close>
\<close>

definition os_path_join :: "string \<Rightarrow> string \<Rightarrow> string" where
  "os_path_join a b =
     (if startswith b [sep] then b
      else if a = [] \<or> endswith a [sep] then a @ b
      else a @ sep # b)"

text \<open>
  \<open>os.path.normpath(path)\<close>: empty and \<open>.\<close> components are dropped, \<open>..\<close> removes the
  component before it where there is one, exactly two leading slashes are kept.
\<close>

definition initial_slashes :: "string \<Rightarrow> nat" where
  "initial_slashes path =
     (if startswith path [sep] then
        (if startswith path [sep, sep] \<and> \<not> startswith path [sep, sep, sep] then 2 else 1)
      else 0)"

definition normpath_step :: "nat \<Rightarrow> string list \<Rightarrow> string \<Rightarrow> string list" where
  "normpath_step slashes new_comps cmp =
     (if cmp = [] \<or> cmp = ''.'' then new_comps
      else if cmp \<noteq> ''..'' \<or> (slashes = 0 \<and> new_comps = [])
                \<or> (new_comps \<noteq> [] \<and> last new_comps = ''..'')
      then new_comps @ [cmp]
      else if new_comps \<noteq> [] then butlast new_comps
      else new_comps)"

definition normpath :: "string \<Rightarrow> string" where
  "normpath path =
     (if path = [] then ''.''
      else
        (let slashes = initial_slashes path;
             comps = foldl (normpath_step slashes) [] (split_on sep path);
             p = replicate slashes sep @ join_with sep comps
         in if p = [] then ''.'' else p))"

text \<open>
  \<open>os.path.dirname(p)\<close>: everything up to the last slash, with the trailing slashes
  removed unless the head consists of slashes only.
\<close>

definition dirname :: "string \<Rightarrow> string" where
  "dirname p =
     (let head = rev (dropWhile (\<lambda>c. c \<noteq> sep) (rev p))
      in if head \<noteq> [] \<and> \<not> list_all (\<lambda>c. c = sep) head
         then rev (dropWhile (\<lambda>c. c = sep) (rev head))
         else head)"

text \<open>
  \<open>os.path.splitext(p)[1]\<close>: the extension starts at the last dot of the last path
  component, unless only dots precede it there (\<open>.gitignore\<close> has no extension).
\<close>

definition splitext_ext :: "string \<Rightarrow> string" where
  "splitext_ext p =
     (let name = rev (takeWhile (\<lambda>c. c \<noteq> sep) (rev p));
          body = dropWhile (\<lambda>c. c = CHR ''.'') name
      in if CHR ''.'' \<in> set body
         then CHR ''.'' # rev (takeWhile (\<lambda>c. c \<noteq> CHR ''.'') (rev name))
         else [])"

section \<open>The path resolver\<close>

text \<open>
  \<open>_resolve_absolute_import(self, source_file, import_name)\<close>.  The file system enters
  through \<open>os.path.exists\<close> only, which is the parameter \<open>ex\<close>; \<open>lp\<close> is
  \<open>self.local_path\<close>.  The two nested loops over \<open>search_paths\<close> and
  \<open>possible_extensions\<close> are \<open>try_bases\<close> and \<open>try_exts\<close>; a \<open>return\<close> inside them is
  the value \<open>Some\<close>.
\<close>

definition possible_extensions :: "string list" where
  "possible_extensions =
     [''.py'', ''.js'', ''.tsx'', ''.jsx'', ''.ts'', ''.java'', ''.go'', ''.tf'']"

definition index_file :: "string \<Rightarrow> string" where
  "index_file ext = (if ext = ''.py'' then ''__init__.py'' else ''index.js'')"

fun try_exts :: "(string \<Rightarrow> bool) \<Rightarrow> string \<Rightarrow> string list \<Rightarrow> string option" where
  "try_exts ex base_path [] = None"
| "try_exts ex base_path (ext # exts) =
     (if ex (base_path @ ext) then Some (normpath (base_path @ ext))
      else if ext \<in> set [''.py'', ''.js'']
              \<and> ex (os_path_join base_path (index_file ext))
      then Some (normpath (os_path_join base_path (index_file ext)))
      else try_exts ex base_path exts)"

fun try_bases :: "(string \<Rightarrow> bool) \<Rightarrow> string list \<Rightarrow> string option" where
  "try_bases ex [] = None"
| "try_bases ex (base_path # rest) =
     (case try_exts ex base_path possible_extensions of
        Some p \<Rightarrow> Some p
      | None \<Rightarrow> try_bases ex rest)"

definition source_dir_of :: "string \<Rightarrow> string \<Rightarrow> string" where
  "source_dir_of lp source_file = dirname (normpath (os_path_join lp source_file))"

definition search_paths :: "string \<Rightarrow> string \<Rightarrow> string \<Rightarrow> string list" where
  "search_paths lp source_file import_name =
     [os_path_join (source_dir_of lp source_file) (replace_dots import_name),
      os_path_join lp (replace_dots import_name)]"

definition resolve_absolute_import ::
  "(string \<Rightarrow> bool) \<Rightarrow> string \<Rightarrow> string \<Rightarrow> string \<Rightarrow> string option" where
  "resolve_absolute_import ex lp source_file import_name =
     (case try_bases ex (search_paths lp source_file import_name) of
        Some p \<Rightarrow> Some p
      | None \<Rightarrow>
          (if startswith import_name ''.'' then
             (let potential_path =
                    normpath (os_path_join (source_dir_of lp source_file) import_name)
              in if ex potential_path then Some potential_path else None)
           else None))"

section \<open>Regular expressions\<close>

text \<open>
  The patterns of the analyzer use literals, character classes, repetition of a single
  character class (greedy or lazy), alternation, and capturing groups that are not
  nested.  \<open>rmatch r s caps\<close> lists the ways \<open>r\<close> matches a prefix of \<open>s\<close>, in the
  order in which the backtracking matcher of \<open>re\<close> tries them: each is the number of
  characters consumed and the captured groups so far.  The head of the list is the
  match \<open>re\<close> reports.
\<close>

datatype cclass =
    AnyChar                     \<comment> \<open>\<open>.\<close> (no newline)\<close>
  | Space                       \<comment> \<open>\<open>\s\<close>\<close>
  | Word                        \<comment> \<open>\<open>\w\<close>\<close>
  | OneOf string                \<comment> \<open>\<open>[...]\<close> of listed characters\<close>
  | NoneOf string               \<comment> \<open>\<open>[^...]\<close>\<close>
  | Union cclass cclass

definition is_word_char :: "char \<Rightarrow> bool" where
  "is_word_char c =
     (let n = (of_char c :: nat)
      in (97 \<le> n \<and> n \<le> 122) \<or> (65 \<le> n \<and> n \<le> 90) \<or> (48 \<le> n \<and> n \<le> 57) \<or> n = 95)"

definition is_space_char :: "char \<Rightarrow> bool" where
  "is_space_char c =
     (let n = (of_char c :: nat) in n = 32 \<or> (9 \<le> n \<and> n \<le> 13) \<or> (28 \<le> n \<and> n \<le> 31))"

fun cmatch :: "cclass \<Rightarrow> char \<Rightarrow> bool" where
  "cmatch AnyChar c = (c \<noteq> CHR 0x0A)"
| "cmatch Space c = is_space_char c"
| "cmatch Word c = is_word_char c"
| "cmatch (OneOf cs) c = (c \<in> set cs)"
| "cmatch (NoneOf cs) c = (c \<notin> set cs)"
| "cmatch (Union a b) c = (cmatch a c \<or> cmatch b c)"

datatype regex =
    Lit string                  \<comment> \<open>a literal string\<close>
  | Cls cclass                  \<comment> \<open>one character of a class\<close>
  | Rep cclass nat bool         \<comment> \<open>at least \<open>n\<close> characters of a class; \<open>True\<close> is greedy\<close>
  | Opt cclass                  \<comment> \<open>\<open>c?\<close>\<close>
  | Seq regex regex
  | Alt regex regex
  | Grp regex                   \<comment> \<open>a capturing group\<close>

fun rmatch :: "regex \<Rightarrow> string \<Rightarrow> string list \<Rightarrow> (nat \<times> string list) list" where
  "rmatch (Lit l) s caps = (if startswith s l then [(length l, caps)] else [])"
| "rmatch (Cls c) s caps =
     (case s of [] \<Rightarrow> [] | x # xs \<Rightarrow> if cmatch c x then [(1, caps)] else [])"
| "rmatch (Rep c n greedy) s caps =
     (let m = length (takeWhile (cmatch c) s);
          ks = [n ..< Suc m]
      in map (\<lambda>k. (k, caps)) (if greedy then rev ks else ks))"
| "rmatch (Opt c) s caps =
     (case s of [] \<Rightarrow> [(0, caps)]
      | x # xs \<Rightarrow> if cmatch c x then [(1, caps), (0, caps)] else [(0, caps)])"
| "rmatch (Seq a b) s caps =
     concat (map (\<lambda>(n, caps'). map (\<lambda>(k, caps''). (n + k, caps'')) (rmatch b (drop n s) caps'))
                 (rmatch a s caps))"
| "rmatch (Alt a b) s caps = rmatch a s caps @ rmatch b s caps"
| "rmatch (Grp a) s caps = map (\<lambda>(n, caps'). (n, caps' @ [take n s])) (rmatch a s caps)"

text \<open>
  \<open>re.findall(r, s)\<close>: the matches from left to right, none overlapping; each is given
  by the list of its groups.  The search goes on behind a match (one character further
  on after an empty match).  \<open>re.search(r, s)\<close> is the first of them.
\<close>

fun findall :: "regex \<Rightarrow> string \<Rightarrow> string list list" where
  "findall r [] = (case rmatch r [] [] of [] \<Rightarrow> [] | (n, caps) # _ \<Rightarrow> [caps])"
| "findall r (x # xs) =
     (case rmatch r (x # xs) [] of
        [] \<Rightarrow> findall r xs
      | (n, caps) # _ \<Rightarrow> caps # findall r (drop (n - 1) xs))"

fun search :: "regex \<Rightarrow> string \<Rightarrow> string list option" where
  "search r [] = (case rmatch r [] [] of [] \<Rightarrow> None | (n, caps) # _ \<Rightarrow> Some caps)"
| "search r (x # xs) =
     (case rmatch r (x # xs) [] of
        [] \<Rightarrow> search r xs
      | (n, caps) # _ \<Rightarrow> Some caps)"

text \<open>Group \<open>i\<close> of a match (\<open>''\<close> for a group that is not there).\<close>

definition match_group :: "nat \<Rightarrow> string list \<Rightarrow> string" where
  "match_group i caps = (if i < length caps then caps ! i else [])"

text \<open>Sequences of more than two parts.\<close>

fun seqs :: "regex list \<Rightarrow> regex" where
  "seqs [] = Lit []"
| "seqs [r] = r"
| "seqs (r # rs) = Seq r (seqs rs)"

definition quote :: cclass where
  "quote = OneOf [CHR 0x27, CHR 0x22]"

definition dquote :: regex where
  "dquote = Lit [CHR 0x22]"

definition not_dquote :: cclass where
  "not_dquote = NoneOf [CHR 0x22]"

subsection \<open>The patterns of the analyzer\<close>

datatype language = Python | Javascript | Java | Go | Terraform

text \<open>
  \<open>self.language_patterns[language]['import_patterns']\<close>, each with one group:
  \<^verbatim>\<open>
  python      (?:from|import)\s+([\w.]+)
              (?:from)\s+([\w.]+)(?:\s+import)
  javascript  (?:import|require)\s*\(?[\'\"](.+?)[\'\"]
              (?:from)\s+[\'\"](.+?)[\'\"]
  java        import\s+([\w.]+)(?:;|\s)
  go          import\s+\(\s*[\'\"](.+?)[\'\"]
              import\s+[\'\"](.+?)[\'\"]
  terraform   source\s*=\s*[\"\'](.+?)[\"\']
              module\s+[\"\'](.+?)[\"\']
              terraform\s*{\s*.*?source\s*=\s*[\"\'](.+?)[\"\']
  \<close>
\<close>

definition quoted :: regex where
  "quoted = seqs [Cls quote, Grp (Rep AnyChar 1 False), Cls quote]"

definition dotted_name :: regex where
  "dotted_name = Grp (Rep (Union Word (OneOf ''.'')) 1 True)"

fun import_patterns :: "language \<Rightarrow> regex list" where
  "import_patterns Python =
     [seqs [Alt (Lit ''from'') (Lit ''import''), Rep Space 1 True, dotted_name],
      seqs [Lit ''from'', Rep Space 1 True, dotted_name, Rep Space 1 True, Lit ''import'']]"
| "import_patterns Javascript =
     [seqs [Alt (Lit ''import'') (Lit ''require''), Rep Space 0 True, Opt (OneOf ''(''), quoted],
      seqs [Lit ''from'', Rep Space 1 True, quoted]]"
| "import_patterns Java =
     [seqs [Lit ''import'', Rep Space 1 True, dotted_name, Alt (Lit '';'') (Cls Space)]]"
| "import_patterns Go =
     [seqs [Lit ''import'', Rep Space 1 True, Lit ''('', Rep Space 0 True, quoted],
      seqs [Lit ''import'', Rep Space 1 True, quoted]]"
| "import_patterns Terraform =
     [seqs [Lit ''source'', Rep Space 0 True, Lit ''='', Rep Space 0 True, quoted],
      seqs [Lit ''module'', Rep Space 1 True, quoted],
      seqs [Lit ''terraform'', Rep Space 0 True, Lit ''{'', Rep Space 0 True,
            Rep AnyChar 0 False, Lit ''source'', Rep Space 0 True, Lit ''='',
            Rep Space 0 True, quoted]]"

text \<open>
  The patterns of \<open>_analyze_terraform_dependencies\<close>:
  \<^verbatim>\<open>
  module\s+\"([^\"]+)\"\s+{([^}]+)}
  source\s*=\s*\"([^\"]+)\"
  resource\s+\"([^\"]+)\"\s+\"([^\"]+)\"\s+{
  data\s+\"([^\"]+)\"\s+\"([^\"]+)\"\s+{
  var\.([a-zA-Z0-9_-]+)
  \<close>
\<close>

definition dquoted :: regex where
  "dquoted = seqs [dquote, Grp (Rep not_dquote 1 True), dquote]"

definition module_block_pattern :: regex where
  "module_block_pattern =
     seqs [Lit ''module'', Rep Space 1 True, dquoted, Rep Space 1 True, Lit ''{'',
           Grp (Rep (NoneOf ''}'') 1 True), Lit ''}'']"

definition source_pattern :: regex where
  "source_pattern = seqs [Lit ''source'', Rep Space 0 True, Lit ''='', Rep Space 0 True, dquoted]"

definition resource_block_pattern :: regex where
  "resource_block_pattern =
     seqs [Lit ''resource'', Rep Space 1 True, dquoted, Rep Space 1 True, dquoted,
           Rep Space 1 True, Lit ''{'']"

definition data_block_pattern :: regex where
  "data_block_pattern =
     seqs [Lit ''data'', Rep Space 1 True, dquoted, Rep Space 1 True, dquoted,
           Rep Space 1 True, Lit ''{'']"

definition var_ref_pattern :: regex where
  "var_ref_pattern = seqs [Lit ''var.'', Grp (Rep (Union Word (OneOf ''-'')) 1 True)]"

section \<open>The file system\<close>

text \<open>
  A directory tree without symbolic links.  The content of a file is \<open>None\<close> when
  \<open>open\<close> or the UTF-8 decoding fails on it.  The entries of a directory are listed in
  the order in which \<open>os.scandir\<close> returns them.
\<close>

datatype fsnode = File "string option" | Dir "(string \<times> fsnode) list"

record filesystem =
  fs_root :: fsnode
  fs_cwd :: "string list"

text \<open>
  Path lookup keeps the directories passed on the way (the current one first), so that
  \<open>..\<close> can go back.  A component behind a file fails, also an empty one or \<open>.\<close>.
\<close>

fun fs_step :: "fsnode list \<Rightarrow> string \<Rightarrow> fsnode list option" where
  "fs_step [] c = None"
| "fs_step (File content # up) c = None"
| "fs_step (Dir entries # up) c =
     (if c = [] \<or> c = ''.'' then Some (Dir entries # up)
      else if c = ''..'' then Some (if up = [] then [Dir entries] else up)
      else (case map_of entries c of
              None \<Rightarrow> None
            | Some n \<Rightarrow> Some (n # Dir entries # up)))"

fun fs_steps :: "fsnode list \<Rightarrow> string list \<Rightarrow> fsnode list option" where
  "fs_steps st [] = Some st"
| "fs_steps st (c # cs) = (case fs_step st c of None \<Rightarrow> None | Some st' \<Rightarrow> fs_steps st' cs)"

definition fs_lookup :: "filesystem \<Rightarrow> string \<Rightarrow> fsnode option" where
  "fs_lookup fs path =
     (if path = [] then None
      else
        (case (if startswith path [sep] then Some [fs_root fs]
               else fs_steps [fs_root fs] (fs_cwd fs)) of
           None \<Rightarrow> None
         | Some start \<Rightarrow>
             (case fs_steps start (split_on sep path) of
                None \<Rightarrow> None
              | Some [] \<Rightarrow> None
              | Some (n # up) \<Rightarrow> Some n)))"

text \<open>\<open>os.path.exists(path)\<close>: true of files and of directories.\<close>

definition os_path_exists :: "filesystem \<Rightarrow> string \<Rightarrow> bool" where
  "os_path_exists fs path = (fs_lookup fs path \<noteq> None)"

text \<open>
  \<open>os.walk(top)\<close>, top down.  An item is \<open>(root, parts, files)\<close>: the path of the
  directory as \<open>os.walk\<close> builds it (\<open>os.path.join(top, name)\<close> at every level), the
  names of the directories from \<open>top\<close> down to it, and its files with their contents.
  \<open>keep\<close> is what the loop body leaves in \<open>dirs[:]\<close>: a directory that it removes is
  not entered.
\<close>

type_synonym walk_item = "string \<times> string list \<times> (string \<times> string option) list"

fun files_of :: "(string \<times> fsnode) list \<Rightarrow> (string \<times> string option) list" where
  "files_of [] = []"
| "files_of ((name, File content) # es) = (name, content) # files_of es"
| "files_of ((name, Dir sub) # es) = files_of es"

fun walk_dir :: "(string \<Rightarrow> bool) \<Rightarrow> string \<Rightarrow> string list \<Rightarrow> (string \<times> fsnode) list \<Rightarrow> walk_item list"
  and walk_entries :: "(string \<Rightarrow> bool) \<Rightarrow> string \<Rightarrow> string list \<Rightarrow> (string \<times> fsnode) list \<Rightarrow> walk_item list"
  where
  "walk_dir keep dir parts entries =
     (dir, parts, files_of entries) # walk_entries keep dir parts entries"
| "walk_entries keep dir parts [] = []"
| "walk_entries keep dir parts ((name, File content) # es) = walk_entries keep dir parts es"
| "walk_entries keep dir parts ((name, Dir sub) # es) =
     (if keep name then walk_dir keep (os_path_join dir name) (parts @ [name]) sub else [])
     @ walk_entries keep dir parts es"

definition os_walk :: "(string \<Rightarrow> bool) \<Rightarrow> filesystem \<Rightarrow> string \<Rightarrow> walk_item list" where
  "os_walk keep fs dir =
     (case fs_lookup fs dir of
        Some (Dir entries) \<Rightarrow> walk_dir keep dir [] entries
      | _ \<Rightarrow> [])"

text \<open>
  \<open>os.path.relpath(root, self.local_path)\<close> for a directory of the walk, and
  \<open>os.path.relpath(os.path.join(root, file), self.local_path)\<close> for a file in it: the
  names below the top of the walk, joined by slashes.
\<close>

definition rel_dir_path :: "string list \<Rightarrow> string" where
  "rel_dir_path parts = (if parts = [] then ''.'' else join_with sep parts)"

definition rel_file_path :: "string list \<Rightarrow> string \<Rightarrow> string" where
  "rel_file_path parts file = join_with sep (parts @ [file])"

section \<open>The analyzer\<close>

text \<open>
  The nested dictionary \<open>self.file_structure\<close>: a value is a dictionary (its items in
  insertion order) or a list of dependency tokens.
\<close>

datatype pyval = PyDict "(string \<times> pyval) list" | PyList "string list"

datatype py_error = TypeError | AttributeError | KeyError

type_synonym depmap = "(string \<times> string list) list"

record analyzer =
  local_path :: "string option"
  file_structure :: pyval
  dependencies :: depmap

definition ignored_dirs :: "string list" where
  "ignored_dirs = [''.git'', ''node_modules'', ''__pycache__'', ''venv'', ''.env'', ''.venv'']"

definition language_files :: "(language \<times> string list) list" where
  "language_files =
     [(Python, [''.py'']),
      (Javascript, [''.js'', ''.jsx'', ''.ts'', ''.tsx'']),
      (Java, [''.java'']),
      (Go, [''.go'']),
      (Terraform, [''.tf'', ''.tfvars''])]"

definition get_language_from_extension :: "string \<Rightarrow> language option" where
  "get_language_from_extension filename =
     (let extension = lower (splitext_ext filename)
      in map_option fst (find (\<lambda>(lang, files). extension \<in> set files) language_files))"

text \<open>\<open>self.dependencies[rel_path].append(token)\<close> on the \<open>defaultdict(list)\<close>.\<close>

definition deps_append :: "depmap \<Rightarrow> string \<Rightarrow> string \<Rightarrow> depmap" where
  "deps_append deps rel_path token =
     AList.update rel_path ((case map_of deps rel_path of None \<Rightarrow> [] | Some l \<Rightarrow> l) @ [token]) deps"

text \<open>
  The body of the loop over the matches of one pattern: the import is recorded when
  the resolver returns a true value (not \<open>None\<close>, not the empty string).
\<close>

definition record_import :: "(string \<Rightarrow> bool) \<Rightarrow> string \<Rightarrow> string \<Rightarrow> depmap \<Rightarrow> string \<Rightarrow> depmap" where
  "record_import ex lp rel_path deps match =
     (case resolve_absolute_import ex lp rel_path match of
        None \<Rightarrow> deps
      | Some resolved_path \<Rightarrow>
          if resolved_path \<noteq> [] then deps_append deps rel_path resolved_path else deps)"

definition scan_imports :: "(string \<Rightarrow> bool) \<Rightarrow> string \<Rightarrow> string \<Rightarrow> language \<Rightarrow> string \<Rightarrow> depmap \<Rightarrow> depmap" where
  "scan_imports ex lp rel_path lang content deps =
     foldl (\<lambda>d pattern.
              foldl (\<lambda>d' m. record_import ex lp rel_path d' (match_group 0 m)) d (findall pattern content))
           deps (import_patterns lang)"

text \<open>\<open>_analyze_terraform_dependencies(self, file_path, rel_path, content)\<close>.\<close>

definition record_module :: "(string \<Rightarrow> bool) \<Rightarrow> string \<Rightarrow> string \<Rightarrow> depmap \<Rightarrow> string list \<Rightarrow> depmap" where
  "record_module ex lp rel_path deps block =
     (let module_name = match_group 0 block; module_content = match_group 1 block
      in case search source_pattern module_content of
           None \<Rightarrow> deps
         | Some source_match \<Rightarrow>
             (case resolve_absolute_import ex lp rel_path (match_group 0 source_match) of
                None \<Rightarrow> deps
              | Some resolved_module_path \<Rightarrow>
                  if resolved_module_path \<noteq> []
                  then deps_append deps rel_path
                         (''module:'' @ module_name @ '':'' @ resolved_module_path)
                  else deps))"

definition analyze_terraform_dependencies ::
  "(string \<Rightarrow> bool) \<Rightarrow> string \<Rightarrow> string \<Rightarrow> string \<Rightarrow> depmap \<Rightarrow> depmap" where
  "analyze_terraform_dependencies ex lp rel_path content deps =
     (let d1 = foldl (record_module ex lp rel_path) deps (findall module_block_pattern content);
          d2 = foldl (\<lambda>d b. deps_append d rel_path (''resource:'' @ match_group 0 b @ '':'' @ match_group 1 b))
                 d1 (findall resource_block_pattern content);
          d3 = foldl (\<lambda>d b. deps_append d rel_path (''data:'' @ match_group 0 b @ '':'' @ match_group 1 b))
                 d2 (findall data_block_pattern content)
      in foldl (\<lambda>d v. deps_append d rel_path (''var:'' @ match_group 0 v))
           d3 (findall var_ref_pattern content))"

text \<open>
  The body of \<open>for file in files\<close> in \<open>_analyze_dependencies\<close>: a file of no known
  language is skipped, and so is one that cannot be read.
\<close>

definition scan_file ::
  "(string \<Rightarrow> bool) \<Rightarrow> string \<Rightarrow> string \<Rightarrow> string \<Rightarrow> string option \<Rightarrow> depmap \<Rightarrow> depmap" where
  "scan_file ex lp rel_path file content deps =
     (case get_language_from_extension file of
        None \<Rightarrow> deps
      | Some language \<Rightarrow>
          (case content of
             None \<Rightarrow> deps
           | Some body \<Rightarrow>
               (let d = scan_imports ex lp rel_path language body deps
                in if language = Terraform
                   then analyze_terraform_dependencies ex lp rel_path body d
                   else d)))"

text \<open>\<open>any(ignored in root for ignored in self.ignored_dirs)\<close>.\<close>

definition root_ignored :: "string \<Rightarrow> bool" where
  "root_ignored root = list_ex (\<lambda>ignored. py_in ignored root) ignored_dirs"

definition scan_item :: "(string \<Rightarrow> bool) \<Rightarrow> string \<Rightarrow> depmap \<Rightarrow> walk_item \<Rightarrow> depmap" where
  "scan_item ex lp deps item =
     (case item of (root, parts, files) \<Rightarrow>
        if root_ignored root then deps
        else foldl (\<lambda>d (file, content). scan_file ex lp (rel_file_path parts file) file content d)
               deps files)"

text \<open>\<open>_analyze_dependencies(self)\<close>: the new value of \<open>self.dependencies\<close>.\<close>

definition analyze_dependencies :: "filesystem \<Rightarrow> string \<Rightarrow> depmap" where
  "analyze_dependencies fs lp =
     foldl (scan_item (os_path_exists fs) lp) [] (os_walk (\<lambda>d. True) fs lp)"

text \<open>
  \<open>set_nested_dict(d, path, key, value)\<close> of \<open>_build_file_structure\<close>.  The loop walks
  down references into \<open>d\<close>; the model rebuilds the dictionaries on the way back.  A
  list on the way raises \<open>TypeError\<close>.
\<close>

fun set_nested_dict :: "pyval \<Rightarrow> string list \<Rightarrow> string \<Rightarrow> pyval \<Rightarrow> py_error + pyval" where
  "set_nested_dict (PyList l) path key v = Inl TypeError"
| "set_nested_dict (PyDict items) [] key v = Inr (PyDict (AList.update key v items))"
| "set_nested_dict (PyDict items) (part # path) key v =
     (let items' = (if part \<in> fst ` set items then items
                    else AList.update part (PyDict []) items)
      in case map_of items' part of
           None \<Rightarrow> Inl KeyError
         | Some current \<Rightarrow>
             (case set_nested_dict current path key v of
                Inl e \<Rightarrow> Inl e
              | Inr current' \<Rightarrow> Inr (PyDict (AList.update part current' items'))))"

text \<open>The filter on \<open>dirs[:]\<close> in \<open>_build_file_structure\<close>.\<close>

definition keep_dir :: "string \<Rightarrow> bool" where
  "keep_dir d = (d \<notin> set ignored_dirs \<and> \<not> startswith d ''.'')"

definition file_data :: "depmap \<Rightarrow> string \<Rightarrow> pyval" where
  "file_data deps rel_file =
     (let file_deps = (case map_of deps rel_file of None \<Rightarrow> [] | Some l \<Rightarrow> l)
      in if file_deps \<noteq> [] then PyDict [(''dependencies'', PyList file_deps)]
         else PyDict [])"

definition path_parts_of :: "string list \<Rightarrow> string list" where
  "path_parts_of parts =
     (let rel_path = rel_dir_path parts
      in if rel_path = ''.'' then [] else split_on sep rel_path)"

fun add_files ::
  "depmap \<Rightarrow> string list \<Rightarrow> (string \<times> string option) list \<Rightarrow> pyval \<Rightarrow> py_error + pyval" where
  "add_files deps parts [] structure = Inr structure"
| "add_files deps parts ((file, content) # files) structure =
     (case set_nested_dict structure (path_parts_of parts) file
             (file_data deps (rel_file_path parts file)) of
        Inl e \<Rightarrow> Inl e
      | Inr structure' \<Rightarrow> add_files deps parts files structure')"

fun add_items :: "depmap \<Rightarrow> walk_item list \<Rightarrow> pyval \<Rightarrow> py_error + pyval" where
  "add_items deps [] structure = Inr structure"
| "add_items deps ((root, parts, files) # items) structure =
     (case add_files deps parts files structure of
        Inl e \<Rightarrow> Inl e
      | Inr structure' \<Rightarrow> add_items deps items structure')"

text \<open>\<open>_build_file_structure(self)\<close>: the new value of \<open>self.file_structure\<close>.\<close>

definition build_file_structure :: "filesystem \<Rightarrow> string \<Rightarrow> depmap \<Rightarrow> py_error + pyval" where
  "build_file_structure fs lp deps = add_items deps (os_walk keep_dir fs lp) (PyDict [])"

text \<open>
  \<open>analyze_repo(self)\<close>: the returned boolean and the analyzer afterwards, or the
  exception that escapes.
\<close>

definition analyze_repo :: "filesystem \<Rightarrow> analyzer \<Rightarrow> py_error + (bool \<times> analyzer)" where
  "analyze_repo fs self =
     (case local_path self of
        None \<Rightarrow> Inr (False, self)
      | Some lp \<Rightarrow>
          if lp = [] \<or> \<not> os_path_exists fs lp then Inr (False, self)
          else
            (let self1 = self\<lparr>dependencies := analyze_dependencies fs lp\<rparr>
             in case build_file_structure fs lp (dependencies self1) of
                  Inl e \<Rightarrow> Inl e
                | Inr structure \<Rightarrow> Inr (True, self1\<lparr>file_structure := structure\<rparr>)))"

subsection \<open>The summary\<close>

text \<open>
  \<open>any(k for k in value.keys() if isinstance(value[k], dict))\<close>: some key that is a
  true value (a non-empty string) has a dictionary as its value.
\<close>

fun is_dict :: "pyval \<Rightarrow> bool" where
  "is_dict (PyDict items) = True"
| "is_dict (PyList l) = False"

fun has_dict_child :: "pyval \<Rightarrow> bool" where
  "has_dict_child (PyDict items) = list_ex (\<lambda>(k, v). is_dict v \<and> k \<noteq> []) items"
| "has_dict_child (PyList l) = False"

text \<open>The tests of \<open>_count_files\<close> and of \<open>_count_directories\<close> on a value.\<close>

definition counted_as_file :: "pyval \<Rightarrow> bool" where
  "counted_as_file v = (is_dict v \<and> \<not> has_dict_child v)"

definition counted_as_directory :: "pyval \<Rightarrow> bool" where
  "counted_as_directory v = (is_dict v \<and> has_dict_child v)"

fun count_files :: "pyval \<Rightarrow> py_error + nat"
  and count_files_items :: "(string \<times> pyval) list \<Rightarrow> py_error + nat" where
  "count_files (PyList l) = Inl AttributeError"
| "count_files (PyDict items) = count_files_items items"
| "count_files_items [] = Inr 0"
| "count_files_items ((key, v) # rest) =
     (case (if counted_as_file v then Inr 1 else count_files v) of
        Inl e \<Rightarrow> Inl e
      | Inr n \<Rightarrow>
          (case count_files_items rest of
             Inl e \<Rightarrow> Inl e
           | Inr m \<Rightarrow> Inr (n + m)))"

fun count_directories :: "pyval \<Rightarrow> py_error + nat"
  and count_directories_items :: "(string \<times> pyval) list \<Rightarrow> py_error + nat" where
  "count_directories (PyList l) = Inl AttributeError"
| "count_directories (PyDict items) = count_directories_items items"
| "count_directories_items [] = Inr 0"
| "count_directories_items ((key, v) # rest) =
     (case (if counted_as_directory v
            then (case count_directories v of Inl e \<Rightarrow> Inl e | Inr n \<Rightarrow> Inr (1 + n))
            else Inr 0) of
        Inl e \<Rightarrow> Inl e
      | Inr n \<Rightarrow>
          (case count_directories_items rest of
             Inl e \<Rightarrow> Inl e
           | Inr m \<Rightarrow> Inr (n + m)))"

text \<open>\<open>_count_file_types(self)\<close>, with \<open>extensions[ext] = extensions.get(ext, 0) + 1\<close>.\<close>

definition count_ext :: "(string \<times> nat) list \<Rightarrow> string \<Rightarrow> (string \<times> nat) list" where
  "count_ext extensions file =
     (let ext = lower (splitext_ext file)
      in if ext \<noteq> [] then
           AList.update ext ((case map_of extensions ext of None \<Rightarrow> 0 | Some n \<Rightarrow> n) + 1) extensions
         else extensions)"

definition count_item :: "(string \<times> nat) list \<Rightarrow> walk_item \<Rightarrow> (string \<times> nat) list" where
  "count_item extensions item =
     (case item of (root, parts, files) \<Rightarrow>
        if root_ignored root then extensions
        else foldl count_ext extensions (map fst files))"

definition count_file_types :: "filesystem \<Rightarrow> string \<Rightarrow> (string \<times> nat) list" where
  "count_file_types fs lp = foldl count_item [] (os_walk (\<lambda>d. True) fs lp)"

section \<open>The order of the resolver's candidates\<close>

text \<open>
  The paths that the two loops of the resolver test at one base, in the order of the
  tests: for every extension the file \<open>base_path + ext\<close>, and behind \<open>.py\<close> and
  \<open>.js\<close> the index file of the package \<open>base_path\<close>.
\<close>

fun candidates :: "string \<Rightarrow> string list \<Rightarrow> string list" where
  "candidates base_path [] = []"
| "candidates base_path (ext # exts) =
     (base_path @ ext)
     # (if ext \<in> set [''.py'', ''.js''] then [os_path_join base_path (index_file ext)] else [])
     @ candidates base_path exts"

definition base_candidates :: "string \<Rightarrow> string list" where
  "base_candidates base_path = candidates base_path possible_extensions"

section \<open>Auxiliary notions for the statements\<close>

text \<open>
  The names of the files that \<open>_count_file_types\<close> meets in its walk: those of the
  directories that its test on \<open>root\<close> does not skip.
\<close>

definition scanned_files :: "filesystem \<Rightarrow> string \<Rightarrow> string list" where
  "scanned_files fs lp =
     concat (map (\<lambda>(root, parts, files). if root_ignored root then [] else map fst files)
                 (os_walk (\<lambda>d. True) fs lp))"

text \<open>
  What a file system guarantees of a directory tree: a name is not empty, has no
  slash and is neither \<open>.\<close> nor \<open>..\<close>, and the names in one directory are distinct.
\<close>

definition valid_name :: "string \<Rightarrow> bool" where
  "valid_name n = (n \<noteq> [] \<and> sep \<notin> set n \<and> n \<noteq> ''.'' \<and> n \<noteq> ''..'')"

fun wf_node :: "fsnode \<Rightarrow> bool"
  and wf_entries :: "(string \<times> fsnode) list \<Rightarrow> bool" where
  "wf_node (File content) = True"
| "wf_node (Dir entries) = (distinct (map fst entries) \<and> wf_entries entries)"
| "wf_entries [] = True"
| "wf_entries ((name, n) # es) = (valid_name name \<and> wf_node n \<and> wf_entries es)"

text \<open>
  What the dependency map may hold for the file \<open>rel_path\<close>: a path that the resolver
  returned for some import of that file, or one of the typed Terraform tokens, the
  path in a module token being one that the resolver returned.
\<close>

definition recorded_token :: "(string \<Rightarrow> bool) \<Rightarrow> string \<Rightarrow> string \<Rightarrow> string \<Rightarrow> bool" where
  "recorded_token ex lp rel_path t =
     ((\<exists>imp. resolve_absolute_import ex lp rel_path imp = Some t)
      \<or> (\<exists>name imp p. resolve_absolute_import ex lp rel_path imp = Some p
                       \<and> t = ''module:'' @ name @ '':'' @ p)
      \<or> (\<exists>ty name. t = ''resource:'' @ ty @ '':'' @ name)
      \<or> (\<exists>ty name. t = ''data:'' @ ty @ '':'' @ name)
      \<or> (\<exists>name. t = ''var:'' @ name))"

definition deps_ok :: "(string \<Rightarrow> bool) \<Rightarrow> string \<Rightarrow> depmap \<Rightarrow> bool" where
  "deps_ok ex lp deps =
     (\<forall>(k, tokens) \<in> set deps. tokens \<noteq> [] \<and> (\<forall>t \<in> set tokens. recorded_token ex lp k t))"

text \<open>
  A step of the dependency pass that does nothing but append tokens to the list of
  the key \<open>rel_path\<close>, the same tokens whatever the map holds.
\<close>

definition appends_to :: "string \<Rightarrow> (depmap \<Rightarrow> depmap) \<Rightarrow> bool" where
  "appends_to rel_path f =
     (\<exists>tokens. \<forall>deps. f deps = foldl (\<lambda>d t. deps_append d rel_path t) deps tokens)"


text \<open>The tokens that one call of the resolver contributes.\<close>

definition opt_tokens :: "string option \<Rightarrow> string list" where
  "opt_tokens r = (case r of None \<Rightarrow> [] | Some p \<Rightarrow> [p])"


text \<open>\<open>os.path.isfile(path)\<close>.\<close>

definition os_path_isfile :: "filesystem \<Rightarrow> string \<Rightarrow> bool" where
  "os_path_isfile fs path =
     (case fs_lookup fs path of Some (File content) \<Rightarrow> True | _ \<Rightarrow> False)"

text \<open>The directories from which \<open>fs_lookup\<close> starts on a path.\<close>

definition lookup_start :: "filesystem \<Rightarrow> string \<Rightarrow> fsnode list option" where
  "lookup_start fs path =
     (if startswith path [sep] then Some [fs_root fs] else fs_steps [fs_root fs] (fs_cwd fs))"


text \<open>
  The values of a structure: the structure itself and, for a dictionary, the values
  of its items with theirs.  The dictionaries among them are its nodes.
\<close>

fun subvalues :: "pyval \<Rightarrow> pyval list"
  and subvalues_items :: "(string \<times> pyval) list \<Rightarrow> pyval list" where
  "subvalues (PyList l) = [PyList l]"
| "subvalues (PyDict items) = PyDict items # subvalues_items items"
| "subvalues_items [] = []"
| "subvalues_items ((k, v) # rest) = subvalues v @ subvalues_items rest"

text \<open>
  The shape that \<open>_build_file_structure\<close> keeps: a node is the entry of a file with
  dependencies (the one key \<open>dependencies\<close> with a list), or all its items have a key
  that is not empty and a node as the value (a directory, or a file without
  dependencies).
\<close>

fun is_deps_leaf :: "(string \<times> pyval) list \<Rightarrow> bool" where
  "is_deps_leaf [(k, PyList l)] = (k = ''dependencies'')"
| "is_deps_leaf items = False"

fun node_ok :: "pyval \<Rightarrow> bool"
  and children_ok :: "(string \<times> pyval) list \<Rightarrow> bool" where
  "node_ok (PyList l) = False"
| "node_ok (PyDict items) = (is_deps_leaf items \<or> children_ok items)"
| "children_ok [] = True"
| "children_ok ((k, v) # rest) = (k \<noteq> [] \<and> node_ok v \<and> children_ok rest)"

fun dir_like :: "pyval \<Rightarrow> bool" where
  "dir_like (PyList l) = False"
| "dir_like (PyDict items) = children_ok items"

text \<open>
  \<open>pyget s p\<close> follows the keys \<open>p\<close> down from \<open>s\<close>; \<open>tree_get entries p\<close> follows the
  names \<open>p\<close> down a directory.  While the structure is built, what it holds at the
  path of a directory is shaped like a directory.
\<close>

fun pyget :: "pyval \<Rightarrow> string list \<Rightarrow> pyval option" where
  "pyget v [] = Some v"
| "pyget (PyList l) (k # ks) = None"
| "pyget (PyDict items) (k # ks) =
     (case map_of items k of None \<Rightarrow> None | Some c \<Rightarrow> pyget c ks)"

definition dirs_ok :: "(string list \<Rightarrow> bool) \<Rightarrow> pyval \<Rightarrow> bool" where
  "dirs_ok dp s = (\<forall>p. dp p \<longrightarrow> (case pyget s p of None \<Rightarrow> True | Some v \<Rightarrow> dir_like v))"

fun tree_get :: "(string \<times> fsnode) list \<Rightarrow> string list \<Rightarrow> fsnode option" where
  "tree_get entries [] = Some (Dir entries)"
| "tree_get entries (k # ks) =
     (case map_of entries k of
        None \<Rightarrow> None
      | Some (File content) \<Rightarrow> if ks = [] then Some (File content) else None
      | Some (Dir sub) \<Rightarrow> tree_get sub ks)"

definition is_dir_path :: "(string \<times> fsnode) list \<Rightarrow> string list \<Rightarrow> bool" where
  "is_dir_path entries p = (case tree_get entries p of Some (Dir sub) \<Rightarrow> True | _ \<Rightarrow> False)"

text \<open>
  An item of the walk in the directory \<open>T\<close>: its names are valid, it is a directory of
  \<open>T\<close>, and its files are files of \<open>T\<close>.
\<close>

definition good_item :: "(string \<times> fsnode) list \<Rightarrow> walk_item \<Rightarrow> bool" where
  "good_item T item =
     (case item of (root, parts, files) \<Rightarrow>
        (\<forall>x \<in> set parts. valid_name x) \<and> is_dir_path T parts
        \<and> (\<forall>(f, c) \<in> set files. valid_name f \<and> tree_get T (parts @ [f]) = Some (File c)))"


section \<open>Example file systems\<close>

text \<open>The line feed.\<close>

definition nl :: string where
  "nl = [CHR 0x0A]"

text \<open>
  A Python package whose module \<open>helper\<close> exists next to the importing file and at the
  root of the repository; the module \<open>os\<close> is not in the repository.
\<close>

definition fs_py :: filesystem where
  "fs_py =
     \<lparr>fs_root =
        Dir [(''repo'',
              Dir [(''helper.py'', File (Some [])),
                   (''pkg'', Dir [(''app.py'', File (Some (''import helper'' @ nl @ ''import os'' @ nl))),
                                 (''helper.py'', File (Some []))])])],
      fs_cwd = []\<rparr>"

text \<open>A TypeScript module \<open>utils.ts\<close> next to a package directory \<open>utils\<close>.\<close>

definition fs_ts :: filesystem where
  \<open>fs_ts =
     \<lparr>fs_root =
        Dir [(''repo'',
              Dir [(''app.ts'', File (Some ''import u from "utils"'')),
                   (''utils.ts'', File (Some [])),
                   (''utils'', Dir [(''index.js'', File (Some []))])])],
      fs_cwd = []\<rparr>\<close>

definition new_analyzer :: "string option \<Rightarrow> analyzer" where
  "new_analyzer path = \<lparr>local_path = path, file_structure = PyDict [], dependencies = []\<rparr>"

text \<open>Three \<open>.tf\<close> files, two \<open>.md\<close> files and one file without extension.\<close>

definition fs_hist :: filesystem where
  "fs_hist =
     \<lparr>fs_root =
        Dir [(''repo'',
              Dir [(''main.tf'', File (Some [])),
                   (''README.md'', File (Some [])),
                   (''LICENSE'', File (Some [])),
                   (''modules'', Dir [(''vpc.TF'', File (Some [])),
                                     (''outputs.tf'', File (Some [])),
                                     (''NOTES.md'', File None)])])],
      fs_cwd = []\<rparr>"

text \<open>A repository checked out below a directory called \<open>venv\<close>.\<close>

definition fs_venv :: filesystem where
  \<open>fs_venv =
     \<lparr>fs_root =
        Dir [(''home'',
              Dir [(''venv'',
                    Dir [(''repo'',
                          Dir [(''main.tf'', File (Some ''resource "aws_vpc" "main" {'')),
                               (''README.md'', File (Some []))])])])],
      fs_cwd = []\<rparr>\<close>

text \<open>
  A repository with a hidden directory that is not in the ignored list, and a
  directory whose name contains an ignored name.
\<close>

definition fs_mixed :: filesystem where
  \<open>fs_mixed =
     \<lparr>fs_root =
        Dir [(''repo'',
              Dir [(''main.tf'', File (Some ''resource "aws_vpc" "main" {'')),
                   (''.vscode'', Dir [(''t.tf'', File (Some ''data "aws_ami" "ubuntu" {''))]),
                   (''myvenv'', Dir [(''m.tf'', File (Some ''resource "aws_eip" "nat" {''))])])],
      fs_cwd = []\<rparr>\<close>

text \<open>
  The Terraform scenario: a module block with a local source, a resource block, a
  data block, and two references to \<open>var.cidr_block\<close>.
\<close>

definition tf_scenario :: string where
  \<open>tf_scenario =
     ''module "vpc" { source = "./modules/vpc" }'' @ nl @
     ''resource "aws_vpc" "main" {'' @ nl @
     ''  cidr_block = var.cidr_block'' @ nl @
     ''}'' @ nl @
     ''data "aws_ami" "ubuntu" {'' @ nl @
     ''  owners = [var.cidr_block]'' @ nl @
     ''}'' @ nl\<close>

text \<open>The scenario in a repository where the module directory exists.\<close>

definition fs_tf :: filesystem where
  \<open>fs_tf =
     \<lparr>fs_root =
        Dir [(''repo'',
              Dir [(''main.tf'', File (Some tf_scenario)),
                   (''modules'',
                    Dir [(''vpc'', Dir [(''main.tf'', File (Some ''resource "aws_vpc" "this" {''))])])])],
      fs_cwd = []\<rparr>\<close>

text \<open>A Terraform module whose source is a directory next to the repository.\<close>

definition fs_out :: filesystem where
  \<open>fs_out =
     \<lparr>fs_root =
        Dir [(''work'',
              Dir [(''repo'', Dir [(''main.tf'', File (Some ''module "shared" { source = "../shared" }''))]),
                   (''shared'', Dir [(''main.tf'', File (Some []))])])],
      fs_cwd = []\<rparr>\<close>

text \<open>A directory with the name \<open>dependencies\<close>.\<close>

definition fs_dep :: filesystem where
  "fs_dep =
     \<lparr>fs_root =
        Dir [(''repo'',
              Dir [(''src'',
                    Dir [(''dependencies'', Dir [(''requirements.txt'', File (Some []))])])])],
      fs_cwd = []\<rparr>"

text \<open>
  A Python package with a relative import: \<open>helper.py\<close> exists next to the importing
  file and at the root of the repository.
\<close>

definition fs_rel :: filesystem where
  "fs_rel =
     \<lparr>fs_root =
        Dir [(''repo'',
              Dir [(''helper.py'', File (Some [])),
                   (''pkg'', Dir [(''app.py'', File (Some (''from .helper import x'' @ nl))),
                                 (''helper.py'', File (Some []))])])],
      fs_cwd = []\<rparr>"

section \<open>Properties of the resolver\<close>

lemma try_exts_find:
  "try_exts ex b exts = map_option normpath (find ex (candidates b exts))"
  by (induction exts) auto

lemma find_append_case:
  "find P (xs @ ys) = (case find P xs of None \<Rightarrow> find P ys | Some x \<Rightarrow> Some x)"
  by (induction xs) auto

lemma try_bases_find:
  "try_bases ex bs = map_option normpath (find ex (concat (map base_candidates bs)))"
  by (induction bs)
    (auto simp: try_exts_find base_candidates_def find_append_case split: option.splits)

lemma base_candidates_list:
  "base_candidates b =
     [b @ ''.py'', os_path_join b ''__init__.py'', b @ ''.js'', os_path_join b ''index.js'',
      b @ ''.tsx'', b @ ''.jsx'', b @ ''.ts'', b @ ''.java'', b @ ''.go'', b @ ''.tf'']"
  by (simp add: base_candidates_def possible_extensions_def index_file_def)

text \<open>
  The first search path is \<open>os.path.join\<close> of the directory of the source file and the
  import where dots are slashes.  Whenever one of its candidates exists (a file
  \<open>path + ext\<close> or an index file under \<open>path\<close>), the resolver returns the first of
  them that exists, normalised, whatever exists for the second search path: no
  candidate of the second is looked at before all of the first have failed.
\<close>

theorem resolver_prefers_source_directory:
  assumes "c \<in> set (base_candidates
                      (os_path_join (source_dir_of lp source_file) (replace_dots import_name)))"
    and "ex c"
  shows "\<exists>c'. find ex (base_candidates
                         (os_path_join (source_dir_of lp source_file) (replace_dots import_name)))
               = Some c'
           \<and> resolve_absolute_import ex lp source_file import_name = Some (normpath c')"
proof -
  let ?a = "os_path_join (source_dir_of lp source_file) (replace_dots import_name)"
  from assms have "find ex (base_candidates ?a) \<noteq> None"
    by (auto simp: find_None_iff)
  then obtain c' where c': "find ex (base_candidates ?a) = Some c'"
    by blast
  then have "try_bases ex (search_paths lp source_file import_name) = Some (normpath c')"
    by (simp add: try_bases_find search_paths_def find_append_case)
  then show ?thesis
    using c' by (simp add: resolve_absolute_import_def)
qed

text \<open>
  In \<open>fs_py\<close> the import \<open>helper\<close> of \<open>pkg/app.py\<close> has a target in \<open>pkg\<close> and one at
  the root; the resolver returns the one in \<open>pkg\<close>.
\<close>

theorem resolver_prefers_source_directory_witness:
  "os_path_exists fs_py ''/repo/helper.py''
   \<and> resolve_absolute_import (os_path_exists fs_py) ''/repo'' ''pkg/app.py'' ''helper''
       = Some ''/repo/pkg/helper.py''"
proof -
  let ?a = "os_path_join (source_dir_of ''/repo'' ''pkg/app.py'') (replace_dots ''helper'')"
  have m: "''/repo/pkg/helper.py'' \<in> set (base_candidates ?a)"
    by code_simp
  have e: "os_path_exists fs_py ''/repo/pkg/helper.py''"
    by code_simp
  have f: "find (os_path_exists fs_py) (base_candidates ?a) = Some ''/repo/pkg/helper.py''"
    by code_simp
  have n: "normpath ''/repo/pkg/helper.py'' = ''/repo/pkg/helper.py''"
    by code_simp
  have r: "os_path_exists fs_py ''/repo/helper.py''"
    by code_simp
  from resolver_prefers_source_directory
         [of "''/repo/pkg/helper.py''" "''/repo''" "''pkg/app.py''" "''helper''"
             "os_path_exists fs_py", OF m e] f n r
  show ?thesis
    by simp
qed

text \<open>
  The first search path is below the directory of the source file only when the
  import does not begin with a dot.  The leading dot of a relative import becomes a
  slash, and \<open>os.path.join\<close> drops what stands before a component that begins with
  a slash: both search paths are then the import itself with slashes for dots, an
  absolute path that has neither the source directory nor the repository in it.
\<close>

lemma dot_import_search_paths:
  assumes "startswith import_name ''.''"
  shows "search_paths lp source_file import_name
           = [replace_dots import_name, replace_dots import_name]"
proof -
  from assms obtain rest where "import_name = CHR ''.'' # rest"
    by (cases import_name) auto
  then have "startswith (replace_dots import_name) [sep]"
    by (simp add: replace_dots_def)
  then show ?thesis
    by (simp add: search_paths_def os_path_join_def)
qed

text \<open>
  \<^bold>\<open>C2\<close> at \<open>fs_rel\<close>.  The import patterns take \<open>.helper\<close> from the line
  \<open>from .helper import x\<close> of \<open>pkg/app.py\<close>.  A target \<open>helper.py\<close> exists in the
  directory of the source file and at the root of the repository, and the claim has
  the resolver return \<open>/repo/pkg/helper.py\<close>.  The code searches \<open>/helper\<close> twice,
  finds nothing, and returns \<open>None\<close>: the dependency map of the repository is empty.
\<close>

theorem relative_import_misses_source_directory:
  "map (\<lambda>pattern. map (match_group 0) (findall pattern (''from .helper import x'' @ nl)))
       (import_patterns Python)
     = [[''.helper'', ''x''], [''.helper'']]
   \<and> search_paths ''/repo'' ''pkg/app.py'' ''.helper'' = [''/helper'', ''/helper'']
   \<and> os_path_exists fs_rel (source_dir_of ''/repo'' ''pkg/app.py'' @ ''/helper.py'')
   \<and> os_path_exists fs_rel (''/repo'' @ ''/helper.py'')
   \<and> resolve_absolute_import (os_path_exists fs_rel) ''/repo'' ''pkg/app.py'' ''.helper'' = None
   \<and> analyze_dependencies fs_rel ''/repo'' = []"
  by code_simp

text \<open>
  \<^bold>\<open>C3\<close> fails on the code: in \<open>fs_ts\<close> the direct file \<open>utils.ts\<close> exists at the
  base \<open>/repo/utils\<close>, and the resolver returns the package index \<open>utils/index.js\<close> of
  that base, which is none of the direct candidates.
\<close>

theorem package_index_beats_later_extension:
  "os_path_exists fs_ts (''/repo/utils'' @ ''.ts'')
   \<and> resolve_absolute_import (os_path_exists fs_ts) ''/repo'' ''app.ts'' ''utils''
       = Some ''/repo/utils/index.js''
   \<and> ''/repo/utils/index.js''
       \<notin> set (map (\<lambda>ext. normpath (''/repo/utils'' @ ext)) possible_extensions)"
  by code_simp

text \<open>
  \<^bold>\<open>C3, amended.\<close>  The candidates are tested in one fixed order, first those of base
  A (\<open>a\<close>), then those of base B (\<open>b\<close>); within a base the index file
  \<open>__init__.py\<close> comes directly behind \<open>.py\<close> and \<open>index.js\<close> directly behind \<open>.js\<close>,
  before the direct files of the later extensions.  The resolver returns the first
  candidate of this order that exists, normalised.
\<close>

theorem resolver_candidate_order:
  assumes "a = os_path_join (source_dir_of lp source_file) (replace_dots import_name)"
    and "b = os_path_join lp (replace_dots import_name)"
    and "find ex
           [a @ ''.py'', os_path_join a ''__init__.py'', a @ ''.js'', os_path_join a ''index.js'',
            a @ ''.tsx'', a @ ''.jsx'', a @ ''.ts'', a @ ''.java'', a @ ''.go'', a @ ''.tf'',
            b @ ''.py'', os_path_join b ''__init__.py'', b @ ''.js'', os_path_join b ''index.js'',
            b @ ''.tsx'', b @ ''.jsx'', b @ ''.ts'', b @ ''.java'', b @ ''.go'', b @ ''.tf'']
         = Some c"
  shows "resolve_absolute_import ex lp source_file import_name = Some (normpath c)"
proof -
  have "concat (map base_candidates (search_paths lp source_file import_name))
          = base_candidates a @ base_candidates b"
    by (simp add: search_paths_def assms(1,2))
  then have "try_bases ex (search_paths lp source_file import_name) = Some (normpath c)"
    using assms(3) by (simp add: try_bases_find base_candidates_list)
  then show ?thesis
    by (simp add: resolve_absolute_import_def)
qed

theorem resolver_candidate_order_witness:
  "resolve_absolute_import (os_path_exists fs_ts) ''/repo'' ''app.ts'' ''utils''
     = Some (normpath ''/repo/utils/index.js'')"
proof -
  let ?a = "os_path_join (source_dir_of ''/repo'' ''app.ts'') (replace_dots ''utils'')"
  let ?b = "os_path_join ''/repo'' (replace_dots ''utils'')"
  have "find (os_path_exists fs_ts)
           [?a @ ''.py'', os_path_join ?a ''__init__.py'', ?a @ ''.js'', os_path_join ?a ''index.js'',
            ?a @ ''.tsx'', ?a @ ''.jsx'', ?a @ ''.ts'', ?a @ ''.java'', ?a @ ''.go'', ?a @ ''.tf'',
            ?b @ ''.py'', os_path_join ?b ''__init__.py'', ?b @ ''.js'', os_path_join ?b ''index.js'',
            ?b @ ''.tsx'', ?b @ ''.jsx'', ?b @ ''.ts'', ?b @ ''.java'', ?b @ ''.go'', ?b @ ''.tf'']
          = Some ''/repo/utils/index.js''"
    by code_simp
  from resolver_candidate_order [OF refl refl this] show ?thesis .
qed

section \<open>Properties of \<open>analyze_repo\<close>\<close>

text \<open>
  \<^bold>\<open>C9.\<close>  When \<open>self.local_path\<close> is \<open>None\<close> or empty, or names nothing that exists,
  \<open>analyze_repo\<close> returns \<open>False\<close> and the analyzer is what it was: the file structure
  and the dependency map have not been touched.
\<close>

theorem analyze_repo_missing_path:
  assumes "local_path self = None \<or> local_path self = Some []
           \<or> (\<exists>lp. local_path self = Some lp \<and> \<not> os_path_exists fs lp)"
  shows "analyze_repo fs self = Inr (False, self)"
  using assms by (auto simp: analyze_repo_def split: option.splits)

theorem analyze_repo_missing_path_witness:
  "analyze_repo fs_py (new_analyzer (Some ''/repo/missing''))
     = Inr (False, new_analyzer (Some ''/repo/missing''))
   \<and> analyze_repo fs_py (new_analyzer None) = Inr (False, new_analyzer None)"
proof -
  have "\<not> os_path_exists fs_py ''/repo/missing''"
    by code_simp
  then have "analyze_repo fs_py (new_analyzer (Some ''/repo/missing''))
               = Inr (False, new_analyzer (Some ''/repo/missing''))"
    by (intro analyze_repo_missing_path) (simp add: new_analyzer_def)
  moreover have "analyze_repo fs_py (new_analyzer None) = Inr (False, new_analyzer None)"
    by (intro analyze_repo_missing_path) (simp add: new_analyzer_def)
  ultimately show ?thesis
    by simp
qed

section \<open>The file-type histogram\<close>

lemma foldl_count_item:
  "foldl count_item acc items =
     foldl count_ext acc
       (concat (map (\<lambda>(root, parts, files). if root_ignored root then [] else map fst files) items))"
  by (induction items arbitrary: acc) (auto simp: count_item_def)

lemma map_of_count_ext:
  "map_of (count_ext acc f) e =
     (if lower (splitext_ext f) = e \<and> e \<noteq> []
      then Some ((case map_of acc e of None \<Rightarrow> 0 | Some n \<Rightarrow> n) + 1)
      else map_of acc e)"
  by (auto simp: count_ext_def Let_def update_conv')

lemma map_of_foldl_count_ext:
  "map_of (foldl count_ext acc fs) e =
     (let n = length (filter (\<lambda>f. lower (splitext_ext f) = e) fs)
      in case map_of acc e of
           None \<Rightarrow> if e \<noteq> [] \<and> 0 < n then Some n else None
         | Some k \<Rightarrow> Some (if e \<noteq> [] then k + n else k))"
proof (induction fs arbitrary: acc)
  case Nil
  then show ?case by (simp split: option.splits)
next
  case (Cons f fs)
  show ?case
    by (simp add: Cons.IH map_of_count_ext Let_def split: option.splits)
qed

text \<open>
  \<^bold>\<open>C8.\<close>  The histogram maps an extension \<open>e\<close> to the number of files met in the walk
  whose lowercased extension is \<open>e\<close>, whatever the language classifier makes of \<open>e\<close>;
  the empty extension and an extension that no file has are not keys.
\<close>

theorem count_file_types_histogram:
  "map_of (count_file_types fs lp) e =
     (let n = length (filter (\<lambda>f. lower (splitext_ext f) = e) (scanned_files fs lp))
      in if e \<noteq> [] \<and> 0 < n then Some n else None)"
  by (simp add: count_file_types_def foldl_count_item map_of_foldl_count_ext scanned_files_def)

text \<open>The scenario: three \<open>.tf\<close>, two \<open>.md\<close> and one file without extension.\<close>

theorem count_file_types_histogram_witness:
  "count_file_types fs_hist ''/repo'' = [(''.tf'', 3), (''.md'', 2)]
   \<and> map_of (count_file_types fs_hist ''/repo'') ''.tf'' = Some 3
   \<and> map_of (count_file_types fs_hist ''/repo'') ''.md'' = Some 2
   \<and> map_of (count_file_types fs_hist ''/repo'') [] = None"
proof -
  have "count_file_types fs_hist ''/repo'' = [(''.tf'', 3), (''.md'', 2)]"
    by code_simp
  moreover have
    "length (filter (\<lambda>f. lower (splitext_ext f) = ''.tf'') (scanned_files fs_hist ''/repo'')) = 3"
    by code_simp
  moreover have
    "length (filter (\<lambda>f. lower (splitext_ext f) = ''.md'') (scanned_files fs_hist ''/repo'')) = 2"
    by code_simp
  ultimately show ?thesis
    using count_file_types_histogram [of fs_hist "''/repo''" "''.tf''"]
      count_file_types_histogram [of fs_hist "''/repo''" "''.md''"]
      count_file_types_histogram [of fs_hist "''/repo''" "[]"]
    by (simp add: Let_def)
qed

section \<open>The directories that the walks skip\<close>

lemma startswith_append_left: "startswith s p \<Longrightarrow> startswith (s @ t) p"
  by (induction s p rule: startswith.induct) auto

lemma py_in_Nil: "py_in [] s"
  by (cases s) auto

lemma py_in_append: "py_in p s \<Longrightarrow> py_in p (s @ t)"
proof (induction s)
  case Nil
  then show ?case by (simp add: py_in_Nil)
next
  case (Cons c s)
  from Cons.prems have "startswith (c # s) p \<or> py_in p s"
    by simp
  then show ?case
  proof
    assume "startswith (c # s) p"
    then have "startswith ((c # s) @ t) p"
      by (rule startswith_append_left)
    then show ?thesis by simp
  next
    assume "py_in p s"
    then show ?thesis by (simp add: Cons.IH)
  qed
qed

lemma root_ignored_append: "root_ignored root \<Longrightarrow> root_ignored (root @ t)"
  unfolding root_ignored_def list_ex_iff by (blast intro: py_in_append)

lemma os_path_join_valid: "valid_name name \<Longrightarrow> \<exists>t. os_path_join dir name = dir @ t"
  by (cases name) (auto simp: os_path_join_def valid_name_def)

lemma walk_roots_ignored:
  "root_ignored dir \<Longrightarrow> wf_entries entries \<Longrightarrow>
     \<forall>item \<in> set (walk_dir keep dir parts entries). root_ignored (fst item)"
  "root_ignored dir \<Longrightarrow> wf_entries entries \<Longrightarrow>
     \<forall>item \<in> set (walk_entries keep dir parts entries). root_ignored (fst item)"
proof (induction keep dir parts entries and keep dir parts entries
    rule: walk_dir_walk_entries.induct)
  case (4 keep dir parts name sub es)
  from "4.prems" obtain t where "os_path_join dir name = dir @ t"
    using os_path_join_valid by auto
  with "4.prems" have "root_ignored (os_path_join dir name)"
    by (simp add: root_ignored_append)
  with 4 show ?case
    by auto
qed auto

lemma foldl_scan_item_ignored:
  "\<forall>item \<in> set items. root_ignored (fst item) \<Longrightarrow> foldl (scan_item ex lp) deps items = deps"
  by (induction items arbitrary: deps) (auto simp: scan_item_def)

lemma foldl_count_item_ignored:
  "\<forall>item \<in> set items. root_ignored (fst item) \<Longrightarrow> foldl count_item exts items = exts"
  by (induction items arbitrary: exts) (auto simp: count_item_def)

lemma wf_entries_iff:
  "wf_entries es \<longleftrightarrow> (\<forall>(name, n) \<in> set es. valid_name name \<and> wf_node n)"
  by (induction es) auto

lemma fs_step_wf:
  "fs_step st c = Some st' \<Longrightarrow> \<forall>n \<in> set st. wf_node n \<Longrightarrow> \<forall>n \<in> set st'. wf_node n"
  by (induction st c rule: fs_step.induct)
    (auto simp: wf_entries_iff split: if_splits option.splits dest!: map_of_SomeD)

lemma fs_steps_wf:
  "fs_steps st cs = Some st' \<Longrightarrow> \<forall>n \<in> set st. wf_node n \<Longrightarrow> \<forall>n \<in> set st'. wf_node n"
proof (induction cs arbitrary: st)
  case Nil
  then show ?case by simp
next
  case (Cons c cs)
  then show ?case
    by (auto split: option.splits dest: fs_step_wf)
qed

lemma fs_lookup_wf:
  assumes "wf_node (fs_root fs)" and "fs_lookup fs path = Some n"
  shows "wf_node n"
proof -
  from assms(2) obtain start st where
    start: "(if startswith path [sep] then Some [fs_root fs]
             else fs_steps [fs_root fs] (fs_cwd fs)) = Some start"
    and st: "fs_steps start (split_on sep path) = Some st" and n: "n \<in> set st"
    by (auto simp: fs_lookup_def split: if_splits option.splits list.splits)
  from start assms(1) have "\<forall>m \<in> set start. wf_node m"
    by (auto split: if_splits dest: fs_steps_wf)
  with st have "\<forall>m \<in> set st. wf_node m"
    by (rule fs_steps_wf)
  with n show ?thesis by blast
qed

lemma walk_snd_independent:
  "map snd (walk_dir keep d1 parts entries) = map snd (walk_dir keep d2 parts entries)"
  "map snd (walk_entries keep d1 parts entries) = map snd (walk_entries keep d2 parts entries)"
proof (induction keep d1 parts entries and keep d1 parts entries arbitrary: d2 and d2
    rule: walk_dir_walk_entries.induct)
  case (1 keep dir parts entries)
  from "1.IH" [of d2] show ?case by simp
next
  case (2 keep dir parts)
  show ?case by simp
next
  case (3 keep dir parts name content es)
  from "3.IH" [of d2] show ?case by simp
next
  case (4 keep dir parts name sub es)
  from "4.IH"(2) [of d2] have rest:
    "map snd (walk_entries keep dir parts es) = map snd (walk_entries keep d2 parts es)" .
  show ?case
  proof (cases "keep name")
    case True
    from "4.IH"(1) [OF True, of "os_path_join d2 name"] rest True show ?thesis
      by (simp del: walk_dir.simps)
  next
    case False
    with rest show ?thesis by simp
  qed
qed

lemma add_items_snd:
  "map snd xs = map snd ys \<Longrightarrow> add_items deps xs s = add_items deps ys s"
proof (induction deps xs s arbitrary: ys rule: add_items.induct)
  case (1 deps s)
  then show ?case by simp
next
  case (2 deps root parts files items s)
  from "2.prems" obtain root' ys' where
    ys: "ys = (root', parts, files) # ys'" and rest: "map snd items = map snd ys'"
    by (cases ys) auto
  show ?case
  proof (cases "add_files deps parts files s")
    case (Inl e)
    then show ?thesis by (simp add: ys)
  next
    case (Inr s')
    with "2.IH" [OF Inr rest] show ?thesis by (simp add: ys)
  qed
qed

section \<open>The dependency map\<close>

lemma foldl_invariant:
  assumes "P a" and "\<And>a x. P a \<Longrightarrow> P (f a x)"
  shows "P (foldl f a xs)"
  using assms(1) by (induction xs arbitrary: a) (auto intro: assms(2))

lemma set_update_cases:
  "(k', v') \<in> set (AList.update k v al) \<Longrightarrow> (k' = k \<and> v' = v) \<or> (k', v') \<in> set al"
  by (induction al) (auto split: if_splits)

lemma deps_append_ok:
  assumes "deps_ok ex lp deps" and "recorded_token ex lp k t"
  shows "deps_ok ex lp (deps_append deps k t)"
  unfolding deps_ok_def
proof (intro ballI, clarify)
  fix k' tokens
  assume "(k', tokens) \<in> set (deps_append deps k t)"
  then consider "k' = k" "tokens = (case map_of deps k of None \<Rightarrow> [] | Some l \<Rightarrow> l) @ [t]"
    | "(k', tokens) \<in> set deps"
    unfolding deps_append_def by (blast dest: set_update_cases)
  then show "tokens \<noteq> [] \<and> (\<forall>t \<in> set tokens. recorded_token ex lp k' t)"
  proof cases
    case 1
    show ?thesis
    proof (cases "map_of deps k")
      case None
      with 1 assms(2) show ?thesis by simp
    next
      case (Some l)
      then have "(k, l) \<in> set deps" by (rule map_of_SomeD)
      with assms(1) have "\<forall>t \<in> set l. recorded_token ex lp k t"
        unfolding deps_ok_def by blast
      with 1 Some assms(2) show ?thesis by simp
    qed
  next
    case 2
    with assms(1) show ?thesis unfolding deps_ok_def by blast
  qed
qed

lemma recorded_token_resolved:
  "resolve_absolute_import ex lp rel_path imp = Some p \<Longrightarrow> recorded_token ex lp rel_path p"
  unfolding recorded_token_def by blast

lemma recorded_token_module:
  "resolve_absolute_import ex lp rel_path imp = Some p \<Longrightarrow>
     recorded_token ex lp rel_path (''module:'' @ name @ '':'' @ p)"
  unfolding recorded_token_def by blast

lemma record_import_ok:
  "deps_ok ex lp deps \<Longrightarrow> deps_ok ex lp (record_import ex lp rel_path deps m)"
  unfolding record_import_def
  by (auto split: option.splits intro!: deps_append_ok recorded_token_resolved)

lemma record_module_ok:
  "deps_ok ex lp deps \<Longrightarrow> deps_ok ex lp (record_module ex lp rel_path deps b)"
proof -
  assume ok: "deps_ok ex lp deps"
  show ?thesis
  proof (cases "search source_pattern (match_group 1 b)")
    case None
    with ok show ?thesis by (simp add: record_module_def)
  next
    case (Some sm)
    show ?thesis
    proof (cases "resolve_absolute_import ex lp rel_path (match_group 0 sm)")
      case None
      with ok Some show ?thesis by (simp add: record_module_def)
    next
      case res: (Some p)
      have "deps_ok ex lp (deps_append deps rel_path (''module:'' @ match_group 0 b @ '':'' @ p))"
        using ok res by (intro deps_append_ok recorded_token_module)
      with ok Some res show ?thesis by (simp add: record_module_def)
    qed
  qed
qed

lemma scan_imports_ok:
  "deps_ok ex lp deps \<Longrightarrow> deps_ok ex lp (scan_imports ex lp rel_path lang content deps)"
  unfolding scan_imports_def
  by (intro foldl_invariant [where P = "deps_ok ex lp"] record_import_ok)

lemma analyze_terraform_dependencies_ok:
  assumes "deps_ok ex lp deps"
  shows "deps_ok ex lp (analyze_terraform_dependencies ex lp rel_path content deps)"
proof -
  have r: "\<And>d b. deps_ok ex lp d \<Longrightarrow>
             deps_ok ex lp (deps_append d rel_path (''resource:'' @ match_group 0 b @ '':'' @ match_group 1 b))"
    by (rule deps_append_ok) (auto simp: recorded_token_def)
  have da: "\<And>d b. deps_ok ex lp d \<Longrightarrow>
             deps_ok ex lp (deps_append d rel_path (''data:'' @ match_group 0 b @ '':'' @ match_group 1 b))"
    by (rule deps_append_ok) (auto simp: recorded_token_def)
  have v: "\<And>d b. deps_ok ex lp d \<Longrightarrow>
             deps_ok ex lp (deps_append d rel_path (''var:'' @ match_group 0 b))"
    by (rule deps_append_ok) (auto simp: recorded_token_def)
  show ?thesis
    unfolding analyze_terraform_dependencies_def Let_def
    by (intro foldl_invariant [where P = "deps_ok ex lp"] assms record_module_ok r da v)
qed

lemma scan_file_ok:
  "deps_ok ex lp deps \<Longrightarrow> deps_ok ex lp (scan_file ex lp rel_path file content deps)"
  unfolding scan_file_def Let_def
  by (auto split: option.splits intro: scan_imports_ok analyze_terraform_dependencies_ok)

lemma scan_item_ok:
  assumes "deps_ok ex lp deps"
  shows "deps_ok ex lp (scan_item ex lp deps item)"
proof -
  obtain root parts files where item: "item = (root, parts, files)"
    by (cases item)
  have "deps_ok ex lp
          (foldl (\<lambda>d (file, content). scan_file ex lp (rel_file_path parts file) file content d)
                 deps files)"
    by (rule foldl_invariant [where P = "deps_ok ex lp"]) (auto intro: assms scan_file_ok)
  with assms show ?thesis
    by (simp add: scan_item_def item)
qed

lemma analyze_dependencies_ok: "deps_ok (os_path_exists fs) lp (analyze_dependencies fs lp)"
  unfolding analyze_dependencies_def
proof (rule foldl_invariant [where P = "deps_ok (os_path_exists fs) lp"])
  show "deps_ok (os_path_exists fs) lp []"
    by (simp add: deps_ok_def)
next
  fix a x
  assume "deps_ok (os_path_exists fs) lp a"
  then show "deps_ok (os_path_exists fs) lp (scan_item (os_path_exists fs) lp a x)"
    by (rule scan_item_ok)
qed

lemma appends_to_id: "appends_to r (\<lambda>d. d)"
  unfolding appends_to_def by (rule exI [of _ "[]"]) simp

lemma appends_to_one: "appends_to r (\<lambda>d. deps_append d r t)"
  unfolding appends_to_def by (rule exI [of _ "[t]"]) simp

lemma appends_to_comp:
  assumes "appends_to r f" and "appends_to r g"
  shows "appends_to r (\<lambda>d. g (f d))"
proof -
  from assms obtain ts us where
    f: "\<And>d. f d = foldl (\<lambda>d t. deps_append d r t) d ts"
    and g: "\<And>d. g d = foldl (\<lambda>d t. deps_append d r t) d us"
    unfolding appends_to_def by blast
  have "\<forall>d. g (f d) = foldl (\<lambda>d t. deps_append d r t) d (ts @ us)"
    by (simp add: f g)
  then show ?thesis
    unfolding appends_to_def by blast
qed

lemma appends_to_foldl:
  assumes "\<And>x. appends_to r (\<lambda>d. step d x)"
  shows "appends_to r (\<lambda>d. foldl step d xs)"
proof (induction xs rule: rev_induct)
  case Nil
  show ?case by (simp add: appends_to_id)
next
  case (snoc x xs)
  from appends_to_comp [OF snoc assms [of x]] show ?case by simp
qed

lemma record_import_appends: "appends_to r (\<lambda>d. record_import ex lp r d m)"
proof (cases "resolve_absolute_import ex lp r m")
  case None
  then show ?thesis by (simp add: record_import_def appends_to_id)
next
  case (Some p)
  then show ?thesis
    by (cases "p = []") (simp_all add: record_import_def appends_to_id appends_to_one)
qed

lemma record_module_appends: "appends_to r (\<lambda>d. record_module ex lp r d b)"
proof (cases "search source_pattern (match_group 1 b)")
  case None
  then show ?thesis by (simp add: record_module_def appends_to_id)
next
  case sm: (Some m)
  show ?thesis
  proof (cases "resolve_absolute_import ex lp r (match_group 0 m)")
    case None
    with sm show ?thesis by (simp add: record_module_def appends_to_id)
  next
    case (Some p)
    with sm show ?thesis
      by (cases "p = []") (simp_all add: record_module_def appends_to_id appends_to_one)
  qed
qed

lemma scan_imports_appends: "appends_to r (scan_imports ex lp r lang content)"
proof -
  have "appends_to r (\<lambda>d. foldl (\<lambda>d pattern.
              foldl (\<lambda>d' m. record_import ex lp r d' (match_group 0 m)) d (findall pattern content))
           d (import_patterns lang))"
    by (rule appends_to_foldl, rule appends_to_foldl, rule record_import_appends)
  then show ?thesis
    by (simp add: scan_imports_def [abs_def])
qed

lemma analyze_terraform_dependencies_appends:
  "appends_to r (analyze_terraform_dependencies ex lp r content)"
proof -
  let ?m = "\<lambda>d. foldl (record_module ex lp r) d (findall module_block_pattern content)"
  let ?r = "\<lambda>d. foldl (\<lambda>d b. deps_append d r (''resource:'' @ match_group 0 b @ '':'' @ match_group 1 b))
                   d (findall resource_block_pattern content)"
  let ?d = "\<lambda>d. foldl (\<lambda>d b. deps_append d r (''data:'' @ match_group 0 b @ '':'' @ match_group 1 b))
                   d (findall data_block_pattern content)"
  let ?v = "\<lambda>d. foldl (\<lambda>d v. deps_append d r (''var:'' @ match_group 0 v))
                   d (findall var_ref_pattern content)"
  have m: "appends_to r ?m"
    by (rule appends_to_foldl) (rule record_module_appends)
  have r: "appends_to r ?r"
    by (rule appends_to_foldl) (rule appends_to_one)
  have d: "appends_to r ?d"
    by (rule appends_to_foldl) (rule appends_to_one)
  have v: "appends_to r ?v"
    by (rule appends_to_foldl) (rule appends_to_one)
  have "appends_to r (\<lambda>d. ?v (?d (?r (?m d))))"
    by (rule appends_to_comp [OF appends_to_comp [OF appends_to_comp [OF m r] d] v])
  then show ?thesis
    by (simp add: analyze_terraform_dependencies_def [abs_def] Let_def)
qed

lemma scan_file_appends: "appends_to r (scan_file ex lp r file content)"
proof (cases "get_language_from_extension file")
  case None
  then show ?thesis by (simp add: scan_file_def [abs_def] appends_to_id)
next
  case lang: (Some language)
  show ?thesis
  proof (cases content)
    case None
    with lang show ?thesis by (simp add: scan_file_def [abs_def] appends_to_id)
  next
    case (Some body)
    have "appends_to r (\<lambda>d. analyze_terraform_dependencies ex lp r body
                               (scan_imports ex lp r language body d))"
      by (rule appends_to_comp [OF scan_imports_appends analyze_terraform_dependencies_appends])
    with lang Some scan_imports_appends [of r ex lp language body] show ?thesis
      by (cases "language = Terraform") (simp_all add: scan_file_def [abs_def] Let_def)
  qed
qed


text \<open>
  \<^bold>\<open>C5.\<close>  An import that the resolver does not resolve leaves the dependency map as
  it is.  Scanning a file does nothing but append the tokens recorded for it to the
  list of its own key: a file for which nothing is recorded does not become a key.
  Every key of the map built by \<open>_analyze_dependencies\<close> has a list that is not
  empty, and every token of the list is a path returned by the resolver for an
  import of that file, or a typed Terraform token.
\<close>

theorem unresolved_imports_not_recorded:
  "(resolve_absolute_import ex p r imp = None \<longrightarrow> record_import ex p r deps imp = deps)
   \<and> appends_to r (scan_file ex p r file content)
   \<and> (map_of (analyze_dependencies fs lp) rel_path = Some tokens \<longrightarrow>
        tokens \<noteq> [] \<and> (\<forall>t \<in> set tokens. recorded_token (os_path_exists fs) lp rel_path t))"
proof (intro conjI impI)
  assume "resolve_absolute_import ex p r imp = None"
  then show "record_import ex p r deps imp = deps"
    by (simp add: record_import_def)
next
  show "appends_to r (scan_file ex p r file content)"
    by (rule scan_file_appends)
next
  assume "map_of (analyze_dependencies fs lp) rel_path = Some tokens"
  then have "(rel_path, tokens) \<in> set (analyze_dependencies fs lp)"
    by (rule map_of_SomeD)
  with analyze_dependencies_ok [of fs lp]
  show "tokens \<noteq> []" and "\<forall>t \<in> set tokens. recorded_token (os_path_exists fs) lp rel_path t"
    unfolding deps_ok_def by blast+
qed

text \<open>
  In \<open>fs_py\<close> the import \<open>helper\<close> of \<open>pkg/app.py\<close> is recorded and its import \<open>os\<close> is
  not; the two files \<open>helper.py\<close> are scanned and are no keys.
\<close>

theorem unresolved_imports_not_recorded_witness:
  "analyze_dependencies fs_py ''/repo'' = [(''pkg/app.py'', [''/repo/pkg/helper.py''])]
   \<and> resolve_absolute_import (os_path_exists fs_py) ''/repo'' ''pkg/app.py'' ''os'' = None
   \<and> record_import (os_path_exists fs_py) ''/repo'' ''pkg/app.py'' [] ''os'' = []
   \<and> recorded_token (os_path_exists fs_py) ''/repo'' ''pkg/app.py'' ''/repo/pkg/helper.py''
   \<and> map_of (analyze_dependencies fs_py ''/repo'') ''helper.py'' = None"
proof -
  have d: "analyze_dependencies fs_py ''/repo'' = [(''pkg/app.py'', [''/repo/pkg/helper.py''])]"
    by code_simp
  have n: "resolve_absolute_import (os_path_exists fs_py) ''/repo'' ''pkg/app.py'' ''os'' = None"
    by code_simp
  have m: "map_of (analyze_dependencies fs_py ''/repo'') ''pkg/app.py''
             = Some [''/repo/pkg/helper.py'']"
    by (simp add: d)
  note t = unresolved_imports_not_recorded
    [where ex = "os_path_exists fs_py" and p = "''/repo''" and r = "''pkg/app.py''"
       and imp = "''os''" and deps = "[]" and fs = fs_py and lp = "''/repo''"
       and rel_path = "''pkg/app.py''" and tokens = "[''/repo/pkg/helper.py'']"]
  from t n have "record_import (os_path_exists fs_py) ''/repo'' ''pkg/app.py'' [] ''os'' = []"
    by blast
  moreover from t m
  have "recorded_token (os_path_exists fs_py) ''/repo'' ''pkg/app.py'' ''/repo/pkg/helper.py''"
    by simp
  ultimately show ?thesis
    using d n by simp
qed

section \<open>The Terraform scenario\<close>

lemma normpath_nonempty: "normpath p \<noteq> []"
  by (simp add: normpath_def Let_def)

lemma try_exts_nonempty: "try_exts ex b exts = Some p \<Longrightarrow> p \<noteq> []"
  by (induction exts) (auto simp: normpath_nonempty split: if_splits)

lemma try_bases_nonempty: "try_bases ex bs = Some p \<Longrightarrow> p \<noteq> []"
  by (induction bs) (auto split: option.splits dest: try_exts_nonempty)

lemma resolve_nonempty: "resolve_absolute_import ex lp src imp = Some p \<Longrightarrow> p \<noteq> []"
  by (auto simp: resolve_absolute_import_def Let_def normpath_nonempty
      split: option.splits if_splits dest: try_bases_nonempty)

lemma record_import_tokens:
  "record_import ex lp rel_path deps m =
     foldl (\<lambda>d t. deps_append d rel_path t) deps
       (opt_tokens (resolve_absolute_import ex lp rel_path m))"
  by (auto simp: record_import_def opt_tokens_def split: option.splits dest: resolve_nonempty)

lemma foldl_foldl_concat:
  "foldl (\<lambda>d x. foldl f d (g x)) d xs = foldl f d (concat (map g xs))"
  by (induction xs arbitrary: d) auto

lemma map_of_deps_append:
  "map_of (deps_append deps k t) k' =
     (if k' = k then Some ((case map_of deps k of None \<Rightarrow> [] | Some l \<Rightarrow> l) @ [t])
      else map_of deps k')"
  by (simp add: deps_append_def update_conv')

lemma map_of_foldl_deps_append:
  "map_of (foldl (\<lambda>d t. deps_append d k t) deps ts) k =
     (if ts = [] then map_of deps k
      else Some ((case map_of deps k of None \<Rightarrow> [] | Some l \<Rightarrow> l) @ ts))"
  by (induction ts arbitrary: deps) (auto simp: map_of_deps_append)

lemma tf_generic_matches:
  "map (\<lambda>pattern. findall pattern tf_scenario) (import_patterns Terraform)
     = [[[''./modules/vpc'']], [[''vpc'']], []]"
  by code_simp

lemma tf_module_blocks:
  \<open>findall module_block_pattern tf_scenario = [[''vpc'', '' source = "./modules/vpc" '']]\<close>
  by code_simp

lemma tf_module_source:
  \<open>search source_pattern '' source = "./modules/vpc" '' = Some [''./modules/vpc'']\<close>
  by code_simp

lemma tf_resource_blocks:
  "findall resource_block_pattern tf_scenario = [[''aws_vpc'', ''main'']]"
  by code_simp

lemma tf_data_blocks:
  "findall data_block_pattern tf_scenario = [[''aws_ami'', ''ubuntu'']]"
  by code_simp

lemma tf_var_refs:
  "findall var_ref_pattern tf_scenario = [[''cidr_block''], [''cidr_block'']]"
  by code_simp

lemma scan_imports_tf_scenario:
  "scan_imports ex lp rel_path Terraform tf_scenario deps =
     foldl (\<lambda>d t. deps_append d rel_path t) deps
       (opt_tokens (resolve_absolute_import ex lp rel_path ''./modules/vpc'')
        @ opt_tokens (resolve_absolute_import ex lp rel_path ''vpc''))"
proof -
  have "scan_imports ex lp rel_path Terraform tf_scenario deps =
          foldl (\<lambda>d m. record_import ex lp rel_path d (match_group 0 m)) deps
            (concat (map (\<lambda>pattern. findall pattern tf_scenario) (import_patterns Terraform)))"
    unfolding scan_imports_def by (rule foldl_foldl_concat)
  also have "\<dots> = foldl (\<lambda>d m. record_import ex lp rel_path d (match_group 0 m)) deps
                     (concat [[[''./modules/vpc'']], [[''vpc'']], []])"
    by (simp only: tf_generic_matches)
  also have "\<dots> = foldl (\<lambda>d t. deps_append d rel_path t) deps
                     (opt_tokens (resolve_absolute_import ex lp rel_path ''./modules/vpc'')
                      @ opt_tokens (resolve_absolute_import ex lp rel_path ''vpc''))"
    by (simp add: match_group_def record_import_tokens)
  finally show ?thesis .
qed

lemma record_module_vpc:
  \<open>record_module ex lp rel_path deps [''vpc'', '' source = "./modules/vpc" ''] =
     foldl (\<lambda>d t. deps_append d rel_path t) deps
       (map (\<lambda>p. ''module:vpc:'' @ p)
          (opt_tokens (resolve_absolute_import ex lp rel_path ''./modules/vpc'')))\<close>
proof -
  have g: "match_group 0 [a, b] = a" "match_group 1 [a, b] = b" "match_group 0 [a] = a"
    for a b :: string
    by (simp_all add: match_group_def)
  show ?thesis
    unfolding record_module_def Let_def g tf_module_source option.case
    by (cases "resolve_absolute_import ex lp rel_path ''./modules/vpc''")
      (auto simp: opt_tokens_def dest: resolve_nonempty)
qed

lemma terraform_tf_scenario:
  "analyze_terraform_dependencies ex lp rel_path tf_scenario deps =
     foldl (\<lambda>d t. deps_append d rel_path t) deps
       (map (\<lambda>p. ''module:vpc:'' @ p)
          (opt_tokens (resolve_absolute_import ex lp rel_path ''./modules/vpc''))
        @ [''resource:aws_vpc:main'', ''data:aws_ami:ubuntu'', ''var:cidr_block'',
           ''var:cidr_block''])"
proof -
  have g: "match_group 0 [a, b] = a" "match_group 1 [a, b] = b" "match_group 0 [a] = a"
    for a b :: string
    by (simp_all add: match_group_def)
  show ?thesis
    unfolding analyze_terraform_dependencies_def Let_def tf_module_blocks tf_resource_blocks
      tf_data_blocks tf_var_refs foldl.simps g record_module_vpc foldl_append
    by simp
qed

text \<open>
  \<^bold>\<open>C4.\<close>  Scanning a Terraform file with the content \<open>tf_scenario\<close> appends to the
  dependency list of the file, in this order: the paths that the generic import
  patterns resolve (the module source \<open>./modules/vpc\<close> and the module name \<open>vpc\<close>,
  each only if it resolves); the module token \<open>module:vpc:<path>\<close>, present exactly
  when \<open>./modules/vpc\<close> resolves; \<open>resource:aws_vpc:main\<close>; \<open>data:aws_ami:ubuntu\<close>; and
  \<open>var:cidr_block\<close> twice.
\<close>

theorem terraform_scenario_tokens:
  assumes "get_language_from_extension file = Some Terraform"
  shows "map_of (scan_file ex lp rel_path file (Some tf_scenario) deps) rel_path =
     Some ((case map_of deps rel_path of None \<Rightarrow> [] | Some l \<Rightarrow> l)
           @ opt_tokens (resolve_absolute_import ex lp rel_path ''./modules/vpc'')
           @ opt_tokens (resolve_absolute_import ex lp rel_path ''vpc'')
           @ map (\<lambda>p. ''module:vpc:'' @ p)
               (opt_tokens (resolve_absolute_import ex lp rel_path ''./modules/vpc''))
           @ [''resource:aws_vpc:main'', ''data:aws_ami:ubuntu'', ''var:cidr_block'',
              ''var:cidr_block''])"
proof -
  have "scan_file ex lp rel_path file (Some tf_scenario) deps =
          foldl (\<lambda>d t. deps_append d rel_path t) deps
            ((opt_tokens (resolve_absolute_import ex lp rel_path ''./modules/vpc'')
              @ opt_tokens (resolve_absolute_import ex lp rel_path ''vpc''))
             @ (map (\<lambda>p. ''module:vpc:'' @ p)
                  (opt_tokens (resolve_absolute_import ex lp rel_path ''./modules/vpc''))
                @ [''resource:aws_vpc:main'', ''data:aws_ami:ubuntu'', ''var:cidr_block'',
                   ''var:cidr_block'']))"
    unfolding scan_file_def assms option.case Let_def scan_imports_tf_scenario
      terraform_tf_scenario foldl_append
    by (simp only: simp_thms if_True)
  then show ?thesis
    by (simp only: map_of_foldl_deps_append) simp
qed

text \<open>In \<open>fs_tf\<close> the module directory exists: the module token is there.\<close>

theorem terraform_scenario_tokens_witness:
  "map_of (scan_file (os_path_exists fs_tf) ''/repo'' ''main.tf'' ''main.tf'' (Some tf_scenario) [])
          ''main.tf''
     = Some [''/repo/modules/vpc'', ''module:vpc:/repo/modules/vpc'', ''resource:aws_vpc:main'',
             ''data:aws_ami:ubuntu'', ''var:cidr_block'', ''var:cidr_block'']
   \<and> analyze_dependencies fs_tf ''/repo''
     = [(''main.tf'',
         [''/repo/modules/vpc'', ''module:vpc:/repo/modules/vpc'', ''resource:aws_vpc:main'',
          ''data:aws_ami:ubuntu'', ''var:cidr_block'', ''var:cidr_block'']),
        (''modules/vpc/main.tf'', [''resource:aws_vpc:this''])]"
proof -
  have l: "get_language_from_extension ''main.tf'' = Some Terraform"
    by code_simp
  have r1: "resolve_absolute_import (os_path_exists fs_tf) ''/repo'' ''main.tf'' ''./modules/vpc''
              = Some ''/repo/modules/vpc''"
    by code_simp
  have r2: "resolve_absolute_import (os_path_exists fs_tf) ''/repo'' ''main.tf'' ''vpc'' = None"
    by code_simp
  have a: "analyze_dependencies fs_tf ''/repo''
     = [(''main.tf'',
         [''/repo/modules/vpc'', ''module:vpc:/repo/modules/vpc'', ''resource:aws_vpc:main'',
          ''data:aws_ami:ubuntu'', ''var:cidr_block'', ''var:cidr_block'']),
        (''modules/vpc/main.tf'', [''resource:aws_vpc:this''])]"
    by code_simp
  from terraform_scenario_tokens [OF l, of "os_path_exists fs_tf" "''/repo''" "''main.tf''" "[]"]
  show ?thesis
    by (simp add: r1 r2 a opt_tokens_def)
qed

section \<open>What the resolver returns\<close>

text \<open>
  In a tree without symbolic links a path that exists still exists when it has been
  normalised: \<open>fs_lookup\<close> on the components of the path and on the components that
  \<open>normpath\<close> keeps ends in the same directory.
\<close>

lemma fs_steps_append:
  "fs_steps st (xs @ ys) = (case fs_steps st xs of None \<Rightarrow> None | Some st' \<Rightarrow> fs_steps st' ys)"
  by (induction xs arbitrary: st) (auto split: option.splits)

lemma fs_step_regular:
  assumes "fs_step st c = Some st'" and "c \<noteq> []" and "c \<noteq> ''.''" and "c \<noteq> ''..''"
  shows "\<exists>n. st' = n # st \<and> st \<noteq> []"
  using assms by (induction st c rule: fs_step.induct) (auto split: option.splits)

lemma fs_step_dotdot_pushed:
  assumes "fs_step (n # st) ''..'' = Some st'" and "st \<noteq> []"
  shows "st' = st"
  using assms by (cases n) auto

lemma fs_step_dotdot_single:
  assumes "fs_step [n] ''..'' = Some st'"
  shows "st' = [n]"
  using assms by (cases n) auto

lemma fs_step_skip:
  assumes "fs_step st c = Some st'" and "c = [] \<or> c = ''.''"
  shows "st' = st"
  using assms by (induction st c rule: fs_step.induct) auto

lemma normpath_step_exists:
  assumes nc: "fs_steps st0 nc = Some st"
    and step: "fs_step st c = Some st'"
    and reg: "\<forall>x \<in> set nc. x \<noteq> [] \<and> x \<noteq> ''.''"
    and abs: "slashes \<noteq> 0 \<longrightarrow> length st0 = 1"
  shows "fs_steps st0 (normpath_step slashes nc c) = Some st'"
proof -
  consider (skip) "c = [] \<or> c = ''.''"
    | (push) "c \<noteq> []" "c \<noteq> ''.''"
        "c \<noteq> ''..'' \<or> (slashes = 0 \<and> nc = []) \<or> (nc \<noteq> [] \<and> last nc = ''..'')"
    | (pop) "c = ''..''" "nc \<noteq> []" "last nc \<noteq> ''..''"
    | (top) "c = ''..''" "nc = []" "slashes \<noteq> 0"
    by (cases "c = ''..''") auto
  then show ?thesis
  proof cases
    case skip
    with step have "st' = st" by (rule fs_step_skip)
    with skip nc show ?thesis by (auto simp: normpath_step_def)
  next
    case push
    then have "normpath_step slashes nc c = nc @ [c]"
      by (auto simp: normpath_step_def)
    with nc step show ?thesis by (simp add: fs_steps_append)
  next
    case pop
    then have eq: "normpath_step slashes nc c = butlast nc"
      by (auto simp: normpath_step_def)
    from pop have "butlast nc @ [last nc] = nc" by simp
    with nc have "fs_steps st0 (butlast nc @ [last nc]) = Some st" by simp
    then obtain st1 where st1: "fs_steps st0 (butlast nc) = Some st1"
      and last: "fs_step st1 (last nc) = Some st"
      by (auto simp: fs_steps_append split: option.splits)
    from pop reg have l: "last nc \<noteq> []" "last nc \<noteq> ''.''" "last nc \<noteq> ''..''"
      by auto
    from fs_step_regular [OF last l] obtain n where "st = n # st1" "st1 \<noteq> []"
      by blast
    with step pop have "st' = st1" by (auto dest: fs_step_dotdot_pushed)
    with st1 eq show ?thesis by simp
  next
    case top
    then have eq: "normpath_step slashes nc c = nc"
      by (auto simp: normpath_step_def)
    from top nc have "st = st0" by simp
    moreover from top abs obtain n where "st0 = [n]"
      by (cases st0) auto
    ultimately have "st' = st" using step top by (auto dest: fs_step_dotdot_single)
    with nc eq show ?thesis by simp
  qed
qed

lemma normpath_step_regular:
  assumes "\<forall>x \<in> set nc. x \<noteq> [] \<and> x \<noteq> ''.'' \<and> P x" and "P c"
  shows "\<forall>x \<in> set (normpath_step slashes nc c). x \<noteq> [] \<and> x \<noteq> ''.'' \<and> P x"
  using assms by (auto simp: normpath_step_def dest: in_set_butlastD)

lemma normpath_fold_exists:
  assumes "fs_steps st0 nc = Some st"
    and "fs_steps st cs = Some st'"
    and "\<forall>x \<in> set nc. x \<noteq> [] \<and> x \<noteq> ''.'' \<and> P x"
    and "\<forall>c \<in> set cs. P c"
    and "slashes \<noteq> 0 \<longrightarrow> length st0 = 1"
  shows "fs_steps st0 (foldl (normpath_step slashes) nc cs) = Some st'
         \<and> (\<forall>x \<in> set (foldl (normpath_step slashes) nc cs). x \<noteq> [] \<and> x \<noteq> ''.'' \<and> P x)"
  using assms
proof (induction cs arbitrary: nc st)
  case Nil
  then show ?case by simp
next
  case (Cons c cs)
  from Cons.prems(2) obtain st1 where c: "fs_step st c = Some st1"
    and cs: "fs_steps st1 cs = Some st'"
    by (auto split: option.splits)
  have 1: "fs_steps st0 (normpath_step slashes nc c) = Some st1"
    using Cons.prems(1) c Cons.prems(3,5) by (intro normpath_step_exists) auto
  have 2: "\<forall>x \<in> set (normpath_step slashes nc c). x \<noteq> [] \<and> x \<noteq> ''.'' \<and> P x"
    using Cons.prems(3,4) by (intro normpath_step_regular) auto
  from Cons.IH [OF 1 cs 2] Cons.prems(4,5) show ?case by simp
qed

lemma split_on_nonempty: "split_on c s \<noteq> []"
  by (induction s) (auto split: list.splits)

lemma split_on_no_sep: "c \<notin> set w \<Longrightarrow> split_on c w = [w]"
  by (induction w) auto

lemma split_on_append_sep: "c \<notin> set w \<Longrightarrow> split_on c (w @ c # rest) = w # split_on c rest"
  by (induction w) auto

lemma split_on_sep_free: "\<forall>w \<in> set (split_on c s). c \<notin> set w"
  by (induction s) (auto split: list.splits)

lemma split_join:
  "ws \<noteq> [] \<Longrightarrow> \<forall>w \<in> set ws. c \<notin> set w \<Longrightarrow> split_on c (join_with c ws) = ws"
  by (induction c ws rule: join_with.induct) (auto simp: split_on_no_sep split_on_append_sep)

lemma join_with_first:
  "ws \<noteq> [] \<Longrightarrow> hd ws \<noteq> [] \<Longrightarrow> \<exists>x rest. join_with c ws = x # rest \<and> x = hd (hd ws)"
  by (induction c ws rule: join_with.induct) (auto simp: neq_Nil_conv)

lemma fs_step_Some_Dir: "fs_step st c = Some st' \<Longrightarrow> \<exists>es up. st = Dir es # up"
  by (induction st c rule: fs_step.induct) auto

lemma fs_steps_Some_Dir:
  "fs_steps st cs = Some st' \<Longrightarrow> cs \<noteq> [] \<Longrightarrow> \<exists>es up. st = Dir es # up"
  by (cases cs) (auto split: option.splits dest: fs_step_Some_Dir)

lemma fs_steps_empty_components:
  "fs_steps (Dir es # up) (replicate k [] @ cs) = fs_steps (Dir es # up) cs"
  by (induction k) auto

lemma os_path_exists_iff:
  "os_path_exists fs p \<longleftrightarrow>
     p \<noteq> [] \<and> (\<exists>st0 n st. lookup_start fs p = Some st0
                         \<and> fs_steps st0 (split_on sep p) = Some (n # st))"
  by (auto simp: os_path_exists_def fs_lookup_def lookup_start_def
      split: option.splits list.splits)

lemma initial_slashes_cases:
  "(initial_slashes p = 0 \<and> \<not> startswith p [sep])
   \<or> ((initial_slashes p = 1 \<or> initial_slashes p = 2) \<and> startswith p [sep])"
  by (auto simp: initial_slashes_def)

lemma exists_normpath:
  assumes "os_path_exists fs p"
  shows "os_path_exists fs (normpath p)"
proof -
  from assms obtain st0 n st where p: "p \<noteq> []"
    and start: "lookup_start fs p = Some st0"
    and steps: "fs_steps st0 (split_on sep p) = Some (n # st)"
    unfolding os_path_exists_iff by blast
  let ?sl = "initial_slashes p"
  let ?nc = "foldl (normpath_step ?sl) [] (split_on sep p)"
  from steps obtain es up where st0: "st0 = Dir es # up"
    using fs_steps_Some_Dir split_on_nonempty by blast
  have abs: "?sl \<noteq> 0 \<longrightarrow> length st0 = 1"
    using initial_slashes_cases [of p] start by (auto simp: lookup_start_def)
  have "fs_steps st0 ?nc = Some (n # st)
        \<and> (\<forall>x \<in> set ?nc. x \<noteq> [] \<and> x \<noteq> ''.'' \<and> sep \<notin> set x)"
    using steps abs split_on_sep_free [of sep p]
    by (intro normpath_fold_exists [where st = st0]) auto
  then have nc: "fs_steps st0 ?nc = Some (n # st)"
    and reg: "\<forall>x \<in> set ?nc. x \<noteq> [] \<and> sep \<notin> set x"
    by auto
  let ?q = "replicate ?sl sep @ join_with sep ?nc"
  have np: "normpath p = (if ?q = [] then ''.'' else ?q)"
    using p by (simp add: normpath_def Let_def)
  show ?thesis
  proof (cases "?nc = []")
    case True
    note empty = this
    show ?thesis
    proof (cases "?sl = 0")
      case True
      with empty np have q: "normpath p = ''.''" by simp
      from True have "\<not> startswith p [sep]"
        using initial_slashes_cases [of p] by auto
      with start have "lookup_start fs ''.'' = Some st0"
        by (simp add: lookup_start_def sep_def)
      moreover have "fs_steps st0 (split_on sep ''.'') = Some (Dir es # up)"
        by (simp add: st0 sep_def)
      ultimately show ?thesis
        unfolding q os_path_exists_iff by blast
    next
      case False
      then have sl: "startswith p [sep]" "?sl = 1 \<or> ?sl = 2"
        using initial_slashes_cases [of p] by auto
      with empty np have q: "normpath p = replicate ?sl sep" by auto
      from sl start have root: "lookup_start fs (replicate ?sl sep) = Some st0"
        by (auto simp: lookup_start_def numeral_2_eq_2)
      have "split_on sep (replicate ?sl sep) = replicate ?sl [] @ [[]]"
        using sl(2) by (auto simp: numeral_2_eq_2)
      then have "fs_steps st0 (split_on sep (replicate ?sl sep)) = Some (Dir es # up)"
        by (simp add: st0 fs_steps_empty_components)
      with root sl(2) show ?thesis
        unfolding q os_path_exists_iff by auto
    qed
  next
    case False
    note nonempty = this
    with reg have sj: "split_on sep (join_with sep ?nc) = ?nc"
      by (intro split_join) auto
    from nonempty reg have "hd ?nc \<noteq> []" "sep \<notin> set (hd ?nc)"
      by (auto simp: hd_in_set)
    with nonempty obtain x rest where j: "join_with sep ?nc = x # rest" and x: "x \<noteq> sep"
      using join_with_first [of ?nc sep] by (metis hd_in_set list.set_sel(1))
    show ?thesis
    proof (cases "?sl = 0")
      case True
      with np j have q: "normpath p = join_with sep ?nc" by simp
      from True have "\<not> startswith p [sep]"
        using initial_slashes_cases [of p] by auto
      with start j x have "lookup_start fs (join_with sep ?nc) = Some st0"
        by (simp add: lookup_start_def)
      with nc sj j show ?thesis
        unfolding q os_path_exists_iff by auto
    next
      case False
      then have sl: "startswith p [sep]" "?sl = 1 \<or> ?sl = 2"
        using initial_slashes_cases [of p] by auto
      with np have q: "normpath p = replicate ?sl sep @ join_with sep ?nc" by auto
      from sl start have root: "lookup_start fs (replicate ?sl sep @ join_with sep ?nc) = Some st0"
        by (auto simp: lookup_start_def numeral_2_eq_2)
      have "split_on sep (replicate ?sl sep @ join_with sep ?nc) = replicate ?sl [] @ ?nc"
        using sl(2) sj by (auto simp: numeral_2_eq_2)
      then have "fs_steps st0 (split_on sep (replicate ?sl sep @ join_with sep ?nc)) = Some (n # st)"
        using nc by (simp add: st0 fs_steps_empty_components)
      with root sl(2) show ?thesis
        unfolding q os_path_exists_iff by auto
    qed
  qed
qed

text \<open>
  \<^bold>\<open>C7\<close> fails on the code.  The source \<open>./modules/vpc\<close> of a Terraform module resolves
  to the directory \<open>/repo/modules/vpc\<close>, which is no file; the source \<open>../shared\<close>
  resolves to a directory outside the repository \<open>/work/repo\<close>; and with the
  repository path \<open>repo\<close> the resolver returns the relative path \<open>repo/modules/vpc\<close>.
\<close>

theorem resolved_path_not_a_repository_file:
  "resolve_absolute_import (os_path_exists fs_tf) ''/repo'' ''main.tf'' ''./modules/vpc''
     = Some ''/repo/modules/vpc''
   \<and> \<not> os_path_isfile fs_tf ''/repo/modules/vpc''
   \<and> os_path_isfile fs_tf ''/repo/main.tf''
   \<and> \<not> os_path_isfile fs_out ''/work/shared''
   \<and> resolve_absolute_import (os_path_exists fs_out) ''/work/repo'' ''main.tf'' ''../shared''
     = Some ''/work/shared''
   \<and> \<not> startswith ''/work/shared'' ''/work/repo''
   \<and> resolve_absolute_import (os_path_exists fs_tf) ''repo'' ''main.tf'' ''./modules/vpc''
     = Some ''repo/modules/vpc''"
  by code_simp

text \<open>
  \<^bold>\<open>C7, amended.\<close>  Whenever the resolver succeeds, the returned value is a normalised
  path (a value of \<open>os.path.normpath\<close>) that exists in the file system, as a file or
  as a directory.
\<close>

theorem resolved_path_exists:
  assumes "resolve_absolute_import (os_path_exists fs) lp source_file import_name = Some r"
  shows "os_path_exists fs r \<and> (\<exists>c. r = normpath c)"
proof (cases "try_bases (os_path_exists fs) (search_paths lp source_file import_name)")
  case None
  with assms show ?thesis
    by (auto simp: resolve_absolute_import_def Let_def split: if_splits)
next
  case (Some q)
  with assms have "q = r"
    by (simp add: resolve_absolute_import_def)
  with Some obtain c where
    c: "find (os_path_exists fs) (concat (map base_candidates (search_paths lp source_file import_name)))
          = Some c"
    and r: "r = normpath c"
    by (auto simp: try_bases_find)
  from c have "os_path_exists fs c"
    by (auto simp: find_Some_iff)
  then have "os_path_exists fs (normpath c)"
    by (rule exists_normpath)
  with r show ?thesis by blast
qed

theorem resolved_path_exists_witness:
  "os_path_exists fs_tf ''/repo/modules/vpc'' \<and> (\<exists>c. ''/repo/modules/vpc'' = normpath c)"
proof -
  have "resolve_absolute_import (os_path_exists fs_tf) ''/repo'' ''main.tf'' ''./modules/vpc''
          = Some ''/repo/modules/vpc''"
    by code_simp
  then show ?thesis
    by (rule resolved_path_exists)
qed

section \<open>The shape of the built structure\<close>

lemma children_ok_iff:
  "children_ok items \<longleftrightarrow> (\<forall>(k, v) \<in> set items. k \<noteq> [] \<and> node_ok v)"
  by (induction items) auto

lemma children_ok_update:
  "children_ok items \<Longrightarrow> k \<noteq> [] \<Longrightarrow> node_ok v \<Longrightarrow> children_ok (AList.update k v items)"
  by (induction items) auto

lemma dir_like_node_ok: "dir_like v \<Longrightarrow> node_ok v"
  by (cases v) auto

lemma dir_like_cases:
  assumes "dir_like s"
  obtains items where "s = PyDict items" "children_ok items"
  using assms by (cases s) auto

lemma children_ok_map_of:
  "children_ok items \<Longrightarrow> map_of items k = Some v \<Longrightarrow> node_ok v"
  by (auto simp: children_ok_iff dest!: map_of_SomeD)

lemma set_nested_dict_ok:
  assumes "node_ok data"
    and "key \<noteq> []"
    and "\<forall>x \<in> set parts. x \<noteq> []"
    and "dp parts"
    and "\<And>p q. dp (p @ q) \<Longrightarrow> dp p"
    and "\<And>further. \<not> dp (parts @ key # further)"
    and "dirs_ok dp s"
  shows "\<exists>s'. set_nested_dict s parts key data = Inr s' \<and> dirs_ok dp s'"
  using assms(3-7)
proof (induction parts arbitrary: s dp)
  case Nil
  from Nil.prems(2,5) have "dir_like s"
    by (auto simp: dirs_ok_def split: option.splits)
  then obtain items where s: "s = PyDict items" and ok: "children_ok items"
    by (rule dir_like_cases)
  let ?s' = "PyDict (AList.update key data items)"
  have "dirs_ok dp ?s'"
    unfolding dirs_ok_def
  proof (intro allI impI)
    fix p
    assume dp: "dp p"
    show "case pyget ?s' p of None \<Rightarrow> True | Some v \<Rightarrow> dir_like v"
    proof (cases p)
      case Nil
      then show ?thesis
        using ok assms(1,2) by (simp add: children_ok_update)
    next
      case (Cons k ks)
      with dp Nil.prems(4) [of ks] have "k \<noteq> key"
        by auto
      then have "pyget ?s' p = pyget s p"
        by (simp add: Cons s update_conv')
      with dp Nil.prems(5) show ?thesis
        by (simp add: dirs_ok_def)
    qed
  qed
  then show ?case
    by (simp add: s)
next
  case (Cons part rest)
  from Cons.prems(3) [of "[]" "part # rest"] Cons.prems(2) have "dp []"
    by simp
  with Cons.prems(5) have "dir_like s"
    by (auto simp: dirs_ok_def split: option.splits)
  then obtain items where s: "s = PyDict items" and ok: "children_ok items"
    by (rule dir_like_cases)
  define items' where
    "items' = (if part \<in> fst ` set items then items else AList.update part (PyDict []) items)"
  from Cons.prems(1) have part: "part \<noteq> []"
    by simp
  have ok': "children_ok items'"
    using ok part by (simp add: items'_def children_ok_update)
  have "map_of items' part \<noteq> None"
  proof (cases "part \<in> fst ` set items")
    case True
    then show ?thesis by (simp add: items'_def map_of_eq_None_iff)
  next
    case False
    then show ?thesis by (simp add: items'_def update_conv')
  qed
  then obtain current where current: "map_of items' part = Some current"
    by blast
  let ?dp = "\<lambda>p. dp (part # p)"
  have other: "map_of items' k = map_of items k" if "k \<noteq> part" for k
    using that by (simp add: items'_def update_conv')
  have cur: "pyget current p = pyget s (part # p) \<or> (current = PyDict [] \<and> part \<notin> fst ` set items)" for p
    using current by (auto simp: items'_def s update_conv' split: if_splits)
  have "dirs_ok ?dp current"
    unfolding dirs_ok_def
  proof (intro allI impI)
    fix p
    assume dp: "dp (part # p)"
    from cur [of p] show "case pyget current p of None \<Rightarrow> True | Some v \<Rightarrow> dir_like v"
    proof
      assume "pyget current p = pyget s (part # p)"
      with dp Cons.prems(5) show ?thesis
        by (simp add: dirs_ok_def)
    next
      assume "current = PyDict [] \<and> part \<notin> fst ` set items"
      then show ?thesis
        by (cases p) auto
    qed
  qed
  moreover have "\<forall>x \<in> set rest. x \<noteq> []"
    using Cons.prems(1) by simp
  moreover have "?dp rest"
    using Cons.prems(2) by simp
  moreover have "\<And>p q. ?dp (p @ q) \<Longrightarrow> ?dp p"
    using Cons.prems(3) [of "part # _"] by simp
  moreover have "\<And>further. \<not> ?dp (rest @ key # further)"
    using Cons.prems(4) by simp
  ultimately obtain current' where
    rec: "set_nested_dict current rest key data = Inr current'"
    and rec_ok: "dirs_ok ?dp current'"
    using Cons.IH [of ?dp current] by blast
  let ?s' = "PyDict (AList.update part current' items')"
  from rec_ok \<open>?dp rest\<close> Cons.prems(3) [of "[part]" rest] have "dir_like current'"
    by (auto simp: dirs_ok_def split: option.splits)
  have res: "set_nested_dict s (part # rest) key data = Inr ?s'"
    using current rec by (simp add: s items'_def Let_def)
  have "dirs_ok dp ?s'"
    unfolding dirs_ok_def
  proof (intro allI impI)
    fix p
    assume dp: "dp p"
    show "case pyget ?s' p of None \<Rightarrow> True | Some v \<Rightarrow> dir_like v"
    proof (cases p)
      case Nil
      then show ?thesis
        using ok' part \<open>dir_like current'\<close>
        by (simp add: children_ok_update dir_like_node_ok)
    next
      case (Cons k ks)
      show ?thesis
      proof (cases "k = part")
        case True
        with Cons have "pyget ?s' p = pyget current' ks"
          by (simp add: update_conv')
        with rec_ok dp Cons True show ?thesis
          by (simp add: dirs_ok_def)
      next
        case False
        with Cons have "pyget ?s' p = pyget s p"
          by (simp add: update_conv' other s)
        with dp \<open>dirs_ok dp s\<close> show ?thesis
          by (simp add: dirs_ok_def)
      qed
    qed
  qed
  with res show ?case
    by blast
qed

lemma join_with_not_dot:
  assumes "\<forall>x \<in> set parts. valid_name x" and "parts \<noteq> []"
  shows "join_with sep parts \<noteq> ''.''"
proof (cases parts)
  case Nil
  with assms show ?thesis by simp
next
  case (Cons x rest)
  show ?thesis
  proof (cases rest)
    case Nil
    with Cons assms show ?thesis by (simp add: valid_name_def)
  next
    case (Cons y zs)
    with \<open>parts = x # rest\<close> have "sep \<in> set (join_with sep parts)" by simp
    moreover have "sep \<notin> set ''.''" by (simp add: sep_def)
    ultimately show ?thesis by metis
  qed
qed

lemma path_parts_of_valid:
  assumes "\<forall>x \<in> set parts. valid_name x"
  shows "path_parts_of parts = parts"
proof (cases "parts = []")
  case True
  then show ?thesis by (simp add: path_parts_of_def rel_dir_path_def)
next
  case False
  with assms have "join_with sep parts \<noteq> ''.''"
    by (intro join_with_not_dot)
  moreover from assms False have "split_on sep (join_with sep parts) = parts"
    by (intro split_join) (auto simp: valid_name_def)
  ultimately show ?thesis
    using False by (simp add: path_parts_of_def rel_dir_path_def)
qed

lemma tree_get_append:
  "tree_get T p = Some (Dir es) \<Longrightarrow> tree_get T (p @ q) = tree_get es q"
  by (induction p arbitrary: T) (auto split: option.splits fsnode.splits if_splits)

lemma tree_get_prefix:
  "tree_get T (p @ q) = Some (Dir es) \<Longrightarrow> \<exists>es'. tree_get T p = Some (Dir es')"
  by (induction p arbitrary: T) (auto split: option.splits fsnode.splits if_splits)

lemma is_dir_path_prefix: "is_dir_path T (p @ q) \<Longrightarrow> is_dir_path T p"
  by (auto simp: is_dir_path_def split: option.splits fsnode.splits dest: tree_get_prefix)

lemma file_path_no_dir:
  assumes "tree_get T (p @ [f]) = Some (File c)"
  shows "\<not> is_dir_path T (p @ f # further)"
proof
  assume "is_dir_path T (p @ f # further)"
  then have "is_dir_path T ((p @ [f]) @ further)" by simp
  then have "is_dir_path T (p @ [f])" by (rule is_dir_path_prefix)
  with assms show False by (simp add: is_dir_path_def)
qed

lemma files_of_set: "(f, c) \<in> set (files_of es) \<longleftrightarrow> (f, File c) \<in> set es"
  by (induction es rule: files_of.induct) auto

lemma walk_items_good:
  "tree_get T parts = Some (Dir entries) \<Longrightarrow> wf_node (Dir entries) \<Longrightarrow>
     \<forall>x \<in> set parts. valid_name x \<Longrightarrow>
     \<forall>item \<in> set (walk_dir keep dir parts entries). good_item T item"
  "\<forall>full. tree_get T parts = Some (Dir full) \<longrightarrow> distinct (map fst full) \<longrightarrow>
     set entries \<subseteq> set full \<longrightarrow> wf_entries entries \<longrightarrow> (\<forall>x \<in> set parts. valid_name x) \<longrightarrow>
     (\<forall>item \<in> set (walk_entries keep dir parts entries). good_item T item)"
proof (induction keep dir parts entries and keep dir parts entries
    rule: walk_dir_walk_entries.induct)
  case (1 keep dir parts entries)
  have files: "valid_name f \<and> tree_get T (parts @ [f]) = Some (File c)"
    if "(f, c) \<in> set (files_of entries)" for f c
  proof -
    from that have mem: "(f, File c) \<in> set entries"
      by (simp add: files_of_set)
    with "1.prems"(2) have "valid_name f" and "map_of entries f = Some (File c)"
      by (auto simp: wf_entries_iff)
    then show ?thesis
      using "1.prems"(1) by (simp add: tree_get_append)
  qed
  have "is_dir_path T parts"
    using "1.prems"(1) by (simp add: is_dir_path_def)
  with files "1.prems"(3) have "good_item T (dir, parts, files_of entries)"
    unfolding good_item_def by auto
  moreover have "\<forall>item \<in> set (walk_entries keep dir parts entries). good_item T item"
    using "1.IH" "1.prems" by auto
  ultimately show ?case by simp
next
  case (2 keep dir parts)
  show ?case by simp
next
  case (3 keep dir parts name content es)
  then show ?case by auto
next
  case (4 keep dir parts name sub es)
  show ?case
  proof (intro allI impI)
    fix full
    assume full: "tree_get T parts = Some (Dir full)" and dist: "distinct (map fst full)"
      and sub: "set ((name, Dir sub) # es) \<subseteq> set full"
      and wf: "wf_entries ((name, Dir sub) # es)"
      and valid: "\<forall>x \<in> set parts. valid_name x"
    from "4.IH"(2) full dist sub wf valid
    have rest: "\<forall>item \<in> set (walk_entries keep dir parts es). good_item T item"
      by auto
    have here: "\<forall>item \<in> set (walk_dir keep (os_path_join dir name) (parts @ [name]) sub).
                 good_item T item" if "keep name"
    proof (rule "4.IH"(1) [OF that])
      from sub dist have "map_of full name = Some (Dir sub)" by simp
      with full show "tree_get T (parts @ [name]) = Some (Dir sub)"
        by (simp add: tree_get_append)
      from wf show "wf_node (Dir sub)" by simp
      from wf valid show "\<forall>x \<in> set (parts @ [name]). valid_name x" by simp
    qed
    from rest here
    show "\<forall>item \<in> set (walk_entries keep dir parts ((name, Dir sub) # es)). good_item T item"
      by (auto simp del: walk_dir.simps)
  qed
qed

lemma node_ok_file_data: "node_ok (file_data deps rel_file)"
  by (simp add: file_data_def Let_def)

lemma add_files_ok:
  assumes "\<forall>x \<in> set parts. valid_name x" and "is_dir_path T parts"
    and "\<forall>(f, c) \<in> set files. valid_name f \<and> tree_get T (parts @ [f]) = Some (File c)"
    and "dirs_ok (is_dir_path T) s"
  shows "\<exists>s'. add_files deps parts files s = Inr s' \<and> dirs_ok (is_dir_path T) s'"
  using assms(3,4)
proof (induction files arbitrary: s)
  case Nil
  then show ?case by simp
next
  case (Cons fc files)
  obtain f c where fc: "fc = (f, c)" by (cases fc)
  with Cons.prems(1) have f: "valid_name f" "tree_get T (parts @ [f]) = Some (File c)"
    by auto
  have "\<exists>s'. set_nested_dict s parts f (file_data deps (rel_file_path parts f)) = Inr s'
           \<and> dirs_ok (is_dir_path T) s'"
  proof (rule set_nested_dict_ok)
    show "node_ok (file_data deps (rel_file_path parts f))" by (rule node_ok_file_data)
    show "f \<noteq> []" using f(1) by (simp add: valid_name_def)
    show "\<forall>x \<in> set parts. x \<noteq> []" using assms(1) by (auto simp: valid_name_def)
    show "is_dir_path T parts" by (rule assms(2))
    show "\<And>p q. is_dir_path T (p @ q) \<Longrightarrow> is_dir_path T p" by (rule is_dir_path_prefix)
    show "\<And>further. \<not> is_dir_path T (parts @ f # further)" using f(2) by (rule file_path_no_dir)
    show "dirs_ok (is_dir_path T) s" by (rule Cons.prems(2))
  qed
  then obtain s1 where s1: "set_nested_dict s parts f (file_data deps (rel_file_path parts f)) = Inr s1"
    and ok1: "dirs_ok (is_dir_path T) s1"
    by blast
  from Cons.prems(1) have "\<forall>(f, c) \<in> set files. valid_name f \<and> tree_get T (parts @ [f]) = Some (File c)"
    by simp
  from Cons.IH [OF this ok1] s1 show ?case
    by (simp add: fc path_parts_of_valid [OF assms(1)])
qed

lemma add_items_ok:
  assumes "\<forall>item \<in> set items. good_item T item" and "dirs_ok (is_dir_path T) s"
  shows "\<exists>s'. add_items deps items s = Inr s' \<and> dirs_ok (is_dir_path T) s'"
  using assms
proof (induction items arbitrary: s)
  case Nil
  then show ?case by simp
next
  case (Cons item items)
  obtain root parts files where item: "item = (root, parts, files)" by (cases item)
  with Cons.prems(1) have "\<forall>x \<in> set parts. valid_name x" "is_dir_path T parts"
    "\<forall>(f, c) \<in> set files. valid_name f \<and> tree_get T (parts @ [f]) = Some (File c)"
    by (auto simp: good_item_def)
  from add_files_ok [OF this Cons.prems(2)] obtain s1 where
    s1: "add_files deps parts files s = Inr s1" and ok1: "dirs_ok (is_dir_path T) s1"
    by blast
  from Cons.prems(1) have "\<forall>item \<in> set items. good_item T item" by simp
  from Cons.IH [OF this ok1] s1 show ?case
    by (simp add: item)
qed

lemma dirs_ok_empty: "dirs_ok dp (PyDict [])"
  unfolding dirs_ok_def
proof (intro allI impI)
  fix p :: "string list"
  show "case pyget (PyDict []) p of None \<Rightarrow> True | Some v \<Rightarrow> dir_like v"
    by (cases p) auto
qed

lemma dirs_ok_root: "dirs_ok (is_dir_path T) s \<Longrightarrow> dir_like s"
  by (auto simp: dirs_ok_def is_dir_path_def split: option.splits dest: spec [of _ "[]"])

lemma build_file_structure_ok:
  assumes "wf_node (fs_root fs)"
  shows "\<exists>s. build_file_structure fs lp deps = Inr s \<and> dir_like s"
proof (cases "fs_lookup fs lp")
  case None
  then show ?thesis by (simp add: build_file_structure_def os_walk_def)
next
  case (Some n)
  show ?thesis
  proof (cases n)
    case (File c)
    with Some show ?thesis by (simp add: build_file_structure_def os_walk_def)
  next
    case (Dir entries)
    from assms Some have "wf_node n" by (rule fs_lookup_wf)
    with Dir have wf: "wf_node (Dir entries)" by simp
    have "\<forall>item \<in> set (walk_dir keep_dir lp [] entries). good_item entries item"
      by (rule walk_items_good(1) [OF _ wf]) simp_all
    from add_items_ok [OF this dirs_ok_empty, of deps] Some Dir show ?thesis
      by (auto simp: build_file_structure_def os_walk_def dest: dirs_ok_root)
  qed
qed

lemma is_deps_leaf_iff: "is_deps_leaf items \<longleftrightarrow> (\<exists>l. items = [(''dependencies'', PyList l)])"
  by (induction items rule: is_deps_leaf.induct) auto

lemma subvalues_node_ok:
  "node_ok v \<Longrightarrow> PyDict i \<in> set (subvalues v) \<Longrightarrow> node_ok (PyDict i)"
  "is_deps_leaf items \<or> children_ok items \<Longrightarrow> PyDict i \<in> set (subvalues_items items) \<Longrightarrow>
     node_ok (PyDict i)"
proof (induction v and items rule: subvalues_subvalues_items.induct)
  case (1 l)
  then show ?case by simp
next
  case (2 items)
  then show ?case by auto
next
  case 3
  then show ?case by simp
next
  case (4 k v rest)
  from "4.prems"(1) show ?case
  proof
    assume "is_deps_leaf ((k, v) # rest)"
    then obtain l where "v = PyList l" "rest = []"
      by (auto simp: is_deps_leaf_iff)
    with "4.prems"(2) show ?thesis by simp
  next
    assume "children_ok ((k, v) # rest)"
    with 4 show ?thesis by auto
  qed
qed

lemma has_dict_child_iff:
  "children_ok items \<or> is_deps_leaf items \<Longrightarrow>
     has_dict_child (PyDict items) \<longleftrightarrow> list_ex (\<lambda>(k, c). is_dict c) items"
  by (auto simp: list_ex_iff children_ok_iff is_deps_leaf_iff)

lemma node_ok_shape:
  assumes "node_ok (PyDict items)"
  shows "(\<forall>l. map_of items ''dependencies'' = Some (PyList l) \<longrightarrow>
            list_all (\<lambda>(k, c). \<not> is_dict c) items)
       \<and> (''dependencies'' \<notin> fst ` set items \<and> list_ex (\<lambda>(k, c). is_dict c) items \<longrightarrow>
            counted_as_directory (PyDict items))
       \<and> (counted_as_file (PyDict items) \<longleftrightarrow> \<not> counted_as_directory (PyDict items))
       \<and> (counted_as_file (PyDict items) \<longleftrightarrow> list_all (\<lambda>(k, c). \<not> is_dict c) items)"
proof -
  from assms have k: "children_ok items \<or> is_deps_leaf items" by auto
  have hd: "has_dict_child (PyDict items) \<longleftrightarrow> list_ex (\<lambda>(k, c). is_dict c) items"
    using k by (rule has_dict_child_iff)
  have ex: "list_ex (\<lambda>(k, c). is_dict c) items \<longleftrightarrow> \<not> list_all (\<lambda>(k, c). \<not> is_dict c) items"
    by (auto simp: list_ex_iff list_all_iff)
  have a: "list_all (\<lambda>(k, c). \<not> is_dict c) items"
    if "map_of items ''dependencies'' = Some (PyList l)" for l
    using k
  proof
    assume "children_ok items"
    then have "node_ok (PyList l)" using that by (rule children_ok_map_of)
    then show ?thesis by simp
  next
    assume "is_deps_leaf items"
    then show ?thesis by (auto simp: is_deps_leaf_iff)
  qed
  show ?thesis
    using a by (auto simp: counted_as_file_def counted_as_directory_def hd ex
        simp del: has_dict_child.simps)
qed

lemma node_ok_not_file:
  assumes "node_ok v" and "\<not> counted_as_file v"
  shows "dir_like v"
proof (cases v)
  case (PyList l)
  with assms show ?thesis by simp
next
  case (PyDict items)
  with assms(2) have "has_dict_child (PyDict items)"
    by (simp add: counted_as_file_def)
  then have "\<not> is_deps_leaf items"
    by (auto simp: is_deps_leaf_iff)
  with assms(1) PyDict show ?thesis by simp
qed

lemma count_files_total:
  "dir_like v \<Longrightarrow> \<exists>n. count_files v = Inr n"
  "children_ok items \<Longrightarrow> \<exists>n. count_files_items items = Inr n"
proof (induction v and items rule: count_files_count_files_items.induct)
  case (1 l)
  then show ?case by simp
next
  case (2 items)
  then show ?case by simp
next
  case 3
  show ?case by simp
next
  case (4 key v rest)
  from "4.prems" have v: "node_ok v" and rest: "children_ok rest"
    by simp_all
  have "\<exists>n. (if counted_as_file v then Inr 1 else count_files v) = Inr n"
    using "4.IH"(1) v by (auto dest: node_ok_not_file)
  then obtain n where n: "(if counted_as_file v then Inr 1 else count_files v) = Inr n"
    by blast
  from "4.IH"(2) [OF n rest] obtain m where "count_files_items rest = Inr m"
    by blast
  with n show ?case by simp
qed

lemma count_directories_total:
  "dir_like v \<Longrightarrow> \<exists>n. count_directories v = Inr n"
  "children_ok items \<Longrightarrow> \<exists>n. count_directories_items items = Inr n"
proof (induction v and items rule: count_directories_count_directories_items.induct)
  case (1 l)
  then show ?case by simp
next
  case (2 items)
  then show ?case by simp
next
  case 3
  show ?case by simp
next
  case (4 key v rest)
  from "4.prems" have v: "node_ok v" and rest: "children_ok rest"
    by simp_all
  let ?here = "if counted_as_directory v
               then (case count_directories v of Inl e \<Rightarrow> Inl e | Inr n \<Rightarrow> Inr (1 + n))
               else Inr 0"
  have "\<exists>n. ?here = Inr n"
  proof (cases "counted_as_directory v")
    case True
    then have "\<not> counted_as_file v"
      by (simp add: counted_as_file_def counted_as_directory_def)
    with v have "dir_like v" by (rule node_ok_not_file)
    from "4.IH"(1) [OF True this] True show ?thesis by auto
  next
    case False
    then show ?thesis by simp
  qed
  then obtain n where n: "?here = Inr n"
    by blast
  from "4.IH"(2) [OF n rest] obtain m where "count_directories_items rest = Inr m"
    by blast
  with n show ?case by simp
qed

text \<open>
  \<^bold>\<open>C6\<close> fails on the code: a directory that holds a directory called \<open>dependencies\<close>
  is a node with the key \<open>dependencies\<close> and with a dictionary as a child.
\<close>

theorem dependencies_directory_has_dict_child:
  "build_file_structure fs_dep ''/repo'' []
     = Inr (PyDict [(''src'', PyDict [(''dependencies'', PyDict [(''requirements.txt'', PyDict [])])])])
   \<and> PyDict [(''dependencies'', PyDict [(''requirements.txt'', PyDict [])])]
       \<in> set (subvalues
                (PyDict [(''src'', PyDict [(''dependencies'', PyDict [(''requirements.txt'', PyDict [])])])]))
   \<and> map_of [(''dependencies'', PyDict [(''requirements.txt'', PyDict [])])] ''dependencies''
       = Some (PyDict [(''requirements.txt'', PyDict [])])
   \<and> has_dict_child (PyDict [(''dependencies'', PyDict [(''requirements.txt'', PyDict [])])])"
  by code_simp

text \<open>
  \<^bold>\<open>C6, amended.\<close>  For a directory tree as a file system has it (valid names,
  distinct within a directory), \<open>_build_file_structure\<close> returns a structure, and
  for every node of it: if its key \<open>dependencies\<close> holds a list, none of its values is
  a dictionary; if it has no key \<open>dependencies\<close> and some value is a dictionary, it
  is counted as a directory; it is counted as a file or as a directory and not as
  both, and as a file exactly when none of its values is a dictionary.  The two
  counting passes run through the structure without an exception.
\<close>

theorem built_structure_shape:
  assumes "wf_node (fs_root fs)"
  shows "\<exists>s. build_file_structure fs lp deps = Inr s
           \<and> (\<forall>items. PyDict items \<in> set (subvalues s) \<longrightarrow>
                  (\<forall>l. map_of items ''dependencies'' = Some (PyList l) \<longrightarrow>
                       list_all (\<lambda>(k, c). \<not> is_dict c) items)
                \<and> (''dependencies'' \<notin> fst ` set items \<and> list_ex (\<lambda>(k, c). is_dict c) items \<longrightarrow>
                       counted_as_directory (PyDict items))
                \<and> (counted_as_file (PyDict items) \<longleftrightarrow> \<not> counted_as_directory (PyDict items))
                \<and> (counted_as_file (PyDict items) \<longleftrightarrow> list_all (\<lambda>(k, c). \<not> is_dict c) items))
           \<and> (\<exists>n m. count_files s = Inr n \<and> count_directories s = Inr m)"
proof -
  from build_file_structure_ok [OF assms] obtain s where
    s: "build_file_structure fs lp deps = Inr s" and d: "dir_like s"
    by blast
  from d have ok: "node_ok s" by (rule dir_like_node_ok)
  have "node_ok (PyDict items)" if "PyDict items \<in> set (subvalues s)" for items
    using ok that by (rule subvalues_node_ok(1))
  then have shape: "\<forall>items. PyDict items \<in> set (subvalues s) \<longrightarrow>
                  (\<forall>l. map_of items ''dependencies'' = Some (PyList l) \<longrightarrow>
                       list_all (\<lambda>(k, c). \<not> is_dict c) items)
                \<and> (''dependencies'' \<notin> fst ` set items \<and> list_ex (\<lambda>(k, c). is_dict c) items \<longrightarrow>
                       counted_as_directory (PyDict items))
                \<and> (counted_as_file (PyDict items) \<longleftrightarrow> \<not> counted_as_directory (PyDict items))
                \<and> (counted_as_file (PyDict items) \<longleftrightarrow> list_all (\<lambda>(k, c). \<not> is_dict c) items)"
    using node_ok_shape by blast
  from d obtain n m where "count_files s = Inr n" "count_directories s = Inr m"
    using count_files_total(1) count_directories_total(1) by blast
  with s shape show ?thesis by blast
qed

theorem built_structure_shape_witness:
  "build_file_structure fs_tf ''/repo'' [(''main.tf'', [''var:cidr_block''])]
     = Inr (PyDict [(''main.tf'', PyDict [(''dependencies'', PyList [''var:cidr_block''])]),
                    (''modules'', PyDict [(''vpc'', PyDict [(''main.tf'', PyDict [])])])])
   \<and> list_all (\<lambda>(k, c). \<not> is_dict c) [(''dependencies'', PyList [''var:cidr_block''])]
   \<and> counted_as_directory (PyDict [(''vpc'', PyDict [(''main.tf'', PyDict [])])])"
proof -
  let ?deps = "[(''main.tf'', [''var:cidr_block''])]"
  let ?leaf = "[(''dependencies'', PyList [''var:cidr_block''])]"
  let ?dir = "[(''vpc'', PyDict [(''main.tf'', PyDict [])])]"
  let ?s = "PyDict [(''main.tf'', PyDict ?leaf), (''modules'', PyDict ?dir)]"
  have wf: "wf_node (fs_root fs_tf)"
    by code_simp
  have b: "build_file_structure fs_tf ''/repo'' ?deps = Inr ?s"
    by code_simp
  have m1: "PyDict ?leaf \<in> set (subvalues ?s)"
    by code_simp
  have m2: "PyDict ?dir \<in> set (subvalues ?s)"
    by code_simp
  have l: "map_of ?leaf ''dependencies'' = Some (PyList [''var:cidr_block''])"
    by simp
  have d: "''dependencies'' \<notin> fst ` set ?dir \<and> list_ex (\<lambda>(k, c). is_dict c) ?dir"
    by simp
  from built_structure_shape [OF wf, of "''/repo''" ?deps] obtain s where
    s: "build_file_structure fs_tf ''/repo'' ?deps = Inr s"
    and shape: "\<forall>items. PyDict items \<in> set (subvalues s) \<longrightarrow>
                  (\<forall>l. map_of items ''dependencies'' = Some (PyList l) \<longrightarrow>
                       list_all (\<lambda>(k, c). \<not> is_dict c) items)
                \<and> (''dependencies'' \<notin> fst ` set items \<and> list_ex (\<lambda>(k, c). is_dict c) items \<longrightarrow>
                       counted_as_directory (PyDict items))
                \<and> (counted_as_file (PyDict items) \<longleftrightarrow> \<not> counted_as_directory (PyDict items))
                \<and> (counted_as_file (PyDict items) \<longleftrightarrow> list_all (\<lambda>(k, c). \<not> is_dict c) items)"
    by (elim exE conjE)
  from s b have eq: "s = ?s"
    by (simp only: sum.inject)
  from m1 eq have m1': "PyDict ?leaf \<in> set (subvalues s)"
    by (simp only:)
  from m2 eq have m2': "PyDict ?dir \<in> set (subvalues s)"
    by (simp only:)
  from shape [rule_format, OF m1']
  have "\<forall>l. map_of ?leaf ''dependencies'' = Some (PyList l) \<longrightarrow>
           list_all (\<lambda>(k, c). \<not> is_dict c) ?leaf"
    by (rule conjunct1)
  with l have 1: "list_all (\<lambda>(k, c). \<not> is_dict c) ?leaf"
    by blast
  from shape [rule_format, OF m2']
  have "''dependencies'' \<notin> fst ` set ?dir \<and> list_ex (\<lambda>(k, c). is_dict c) ?dir \<longrightarrow>
          counted_as_directory (PyDict ?dir)"
    by (elim conjE)
  with d have 2: "counted_as_directory (PyDict ?dir)"
    by blast
  from b 1 2 show ?thesis
    by (intro conjI)
qed

section \<open>The two exclusion rules\<close>

text \<open>
  \<^bold>\<open>C10.\<close>  The dependency pass and the histogram leave out a directory as soon as an
  ignored name occurs anywhere in its path \<open>root\<close> as a substring.  In particular,
  when the path of the repository itself contains an ignored name, every directory
  of the walk is left out: the dependency map and the histogram are empty.  The
  structure pass does not look at the path: it returns a structure, the one that it
  builds for the same tree under any other path.
\<close>

theorem ignored_name_in_walk_path:
  assumes "ignored \<in> set ignored_dirs"
  shows "(py_in ignored root \<longrightarrow>
            scan_item ex p deps (root, parts, files) = deps
            \<and> count_item exts (root, parts, files) = exts)
       \<and> (wf_node (fs_root fs) \<and> py_in ignored lp \<longrightarrow>
            analyze_dependencies fs lp = []
            \<and> count_file_types fs lp = []
            \<and> (\<exists>s. build_file_structure fs lp (analyze_dependencies fs lp) = Inr s)
            \<and> (\<forall>fs' lp'. fs_lookup fs' lp' = fs_lookup fs lp \<longrightarrow>
                   build_file_structure fs lp [] = build_file_structure fs' lp' []))"
proof (intro conjI impI allI)
  assume "py_in ignored root"
  with assms have "root_ignored root"
    unfolding root_ignored_def list_ex_iff by blast
  then show "scan_item ex p deps (root, parts, files) = deps"
    and "count_item exts (root, parts, files) = exts"
    by (simp_all add: scan_item_def count_item_def)
next
  assume a: "wf_node (fs_root fs) \<and> py_in ignored lp"
  with assms have ign: "root_ignored lp"
    unfolding root_ignored_def list_ex_iff by blast
  have items: "\<forall>item \<in> set (os_walk (\<lambda>d. True) fs lp). root_ignored (fst item)"
  proof (cases "fs_lookup fs lp")
    case None
    then show ?thesis by (simp add: os_walk_def)
  next
    case (Some n)
    show ?thesis
    proof (cases n)
      case (File c)
      with Some show ?thesis by (simp add: os_walk_def)
    next
      case (Dir entries)
      from a Some have "wf_node n" by (auto intro: fs_lookup_wf)
      with Dir have "wf_entries entries" by simp
      with ign Some Dir show ?thesis
        using walk_roots_ignored(1) by (simp add: os_walk_def)
    qed
  qed
  show "analyze_dependencies fs lp = []"
    using items by (simp add: analyze_dependencies_def foldl_scan_item_ignored)
  from a show "\<exists>s. build_file_structure fs lp (analyze_dependencies fs lp) = Inr s"
    using build_file_structure_ok [of fs lp] by blast
  show "count_file_types fs lp = []"
    using items by (simp add: count_file_types_def foldl_count_item_ignored)
next
  fix fs' lp'
  assume "fs_lookup fs' lp' = fs_lookup fs lp"
  then have "map snd (os_walk keep_dir fs lp) = map snd (os_walk keep_dir fs' lp')"
    using walk_snd_independent(1) [of keep_dir lp "[]" _ lp']
    by (simp add: os_walk_def split: option.splits fsnode.splits)
  then show "build_file_structure fs lp [] = build_file_structure fs' lp' []"
    unfolding build_file_structure_def by (rule add_items_snd)
qed

text \<open>
  The directory \<open>myvenv\<close> is skipped for the substring \<open>venv\<close>; the repository
  \<open>/home/venv/repo\<close> has no dependencies and no histogram, and a structure.
\<close>

theorem ignored_name_in_walk_path_witness:
  "scan_item (os_path_exists fs_mixed) ''/repo'' [] (''/repo/myvenv'', [''myvenv''], [(''m.tf'', Some [])]) = []
   \<and> count_item [] (''/repo/myvenv'', [''myvenv''], [(''m.tf'', Some [])]) = []
   \<and> analyze_dependencies fs_venv ''/home/venv/repo'' = []
   \<and> count_file_types fs_venv ''/home/venv/repo'' = []
   \<and> build_file_structure fs_venv ''/home/venv/repo'' []
       = Inr (PyDict [(''main.tf'', PyDict []), (''README.md'', PyDict [])])"
proof -
  have m: "''venv'' \<in> set ignored_dirs"
    by code_simp
  have w: "wf_node (fs_root fs_venv)"
    by code_simp
  have p1: "py_in ''venv'' ''/repo/myvenv''"
    by code_simp
  have p2: "py_in ''venv'' ''/home/venv/repo''"
    by code_simp
  have s: "build_file_structure fs_venv ''/home/venv/repo'' []
             = Inr (PyDict [(''main.tf'', PyDict []), (''README.md'', PyDict [])])"
    by code_simp
  note t = ignored_name_in_walk_path
    [OF m, where root = "''/repo/myvenv''" and fs = fs_venv and lp = "''/home/venv/repo''"
       and ex = "os_path_exists fs_mixed" and p = "''/repo''" and deps = "[]" and exts = "[]"
       and parts = "[''myvenv'']" and files = "[(''m.tf'', Some [])]"]
  from t p1 have "scan_item (os_path_exists fs_mixed) ''/repo'' []
                    (''/repo/myvenv'', [''myvenv''], [(''m.tf'', Some [])]) = []"
    and "count_item [] (''/repo/myvenv'', [''myvenv''], [(''m.tf'', Some [])]) = []"
    by blast+
  moreover from t w p2 have "analyze_dependencies fs_venv ''/home/venv/repo'' = []"
    and "count_file_types fs_venv ''/home/venv/repo'' = []"
    by blast+
  ultimately show ?thesis
    using s by simp
qed

text \<open>
  \<^bold>\<open>C1\<close> at \<open>fs_mixed\<close>: the structure pass enters \<open>myvenv\<close> and not \<open>.vscode\<close>, the
  dependency pass scans \<open>.vscode\<close> and not \<open>myvenv\<close>.  The file \<open>.vscode/t.tf\<close> has an
  entry in the dependency map and none in the structure; \<open>myvenv/m.tf\<close> is in the
  structure, and its resource block is in no dependency list.
\<close>

theorem walks_exclude_differently:
  "map fst (os_walk keep_dir fs_mixed ''/repo'') = [''/repo'', ''/repo/myvenv'']
   \<and> filter (\<lambda>root. \<not> root_ignored root) (map fst (os_walk (\<lambda>d. True) fs_mixed ''/repo''))
       = [''/repo'', ''/repo/.vscode'']
   \<and> analyze_repo fs_mixed (new_analyzer (Some ''/repo''))
       = Inr (True,
              \<lparr>local_path = Some ''/repo'',
               file_structure =
                 PyDict [(''main.tf'', PyDict [(''dependencies'', PyList [''resource:aws_vpc:main''])]),
                         (''myvenv'', PyDict [(''m.tf'', PyDict [])])],
               dependencies =
                 [(''main.tf'', [''resource:aws_vpc:main'']),
                  (''.vscode/t.tf'', [''data:aws_ami:ubuntu''])]\<rparr>)"
  by code_simp

end
